theory Spec2Isabelle
  imports Main "HOL-Library.AList" "HOL-Library.Char_ord" "HOL-Library.List_Lexorder"
begin

section \<open>Python values used by the web routes\<close>

text \<open>
  The routes of \<^verbatim>\<open>shabda/web.py\<close> work on Python strings, integers, floats,
  dictionaries and lists. A Python string is modelled as a \<open>string\<close> (one \<open>char\<close> per
  character; every literal of the source is ASCII), an integer as \<open>int\<close>, an
  insertion-ordered dictionary as an association list with distinct keys.
\<close>

subsection \<open>Strings\<close>

text \<open>\<^verbatim>\<open>s.startswith(sub)\<close>.\<close>

fun startswith :: "string \<Rightarrow> string \<Rightarrow> bool" where
  "startswith s [] = True"
| "startswith [] (c # sub) = False"
| "startswith (d # s) (c # sub) = (d = c \<and> startswith s sub)"

text \<open>\<^verbatim>\<open>sub in s\<close>: the substring test of Python.\<close>

fun str_in :: "string \<Rightarrow> string \<Rightarrow> bool" where
  "str_in sub [] = (sub = [])"
| "str_in sub (c # s) = (startswith (c # s) sub \<or> str_in sub s)"

text \<open>\<^verbatim>\<open>s.replace(" ", "_")\<close>: the pattern is one character long, so every
  occurrence is one character of \<open>s\<close>.\<close>

definition replace_spaces :: "string \<Rightarrow> string" where
  "replace_spaces s = map (\<lambda>c. if c = CHR '' '' then CHR ''_'' else c) s"

text \<open>\<^verbatim>\<open>s.split(",")\<close>: never returns an empty list; \<^verbatim>\<open>"".split(",")\<close> is
  \<^verbatim>\<open>[""]\<close>.\<close>

fun split_comma :: "string \<Rightarrow> string list" where
  "split_comma [] = [[]]"
| "split_comma (c # s) =
     (case split_comma s of
        [] \<Rightarrow> (if c = CHR '','' then [[], []] else [[c]])
      | w # ws \<Rightarrow> (if c = CHR '','' then [] # w # ws else (c # w) # ws))"

text \<open>\<^verbatim>\<open>",".join(parts)\<close>.\<close>

fun join_comma :: "string list \<Rightarrow> string" where
  "join_comma [] = []"
| "join_comma [w] = w"
| "join_comma (w # v # ws) = w @ CHR '','' # join_comma (v # ws)"

subsection \<open>Integers as decimal text\<close>

definition digit :: "nat \<Rightarrow> char" where
  "digit d = char_of (48 + d)"

text \<open>\<^verbatim>\<open>str(n)\<close> for \<open>n \<ge> 0\<close>.\<close>

fun str_nat :: "nat \<Rightarrow> string" where
  "str_nat n = (if n < 10 then [digit n] else str_nat (n div 10) @ [digit (n mod 10)])"

declare str_nat.simps [simp del]

text \<open>\<^verbatim>\<open>str(i)\<close> for an integer.\<close>

definition str_int :: "int \<Rightarrow> string" where
  "str_int i = (if i < 0 then CHR ''-'' # str_nat (nat (- i)) else str_nat (nat i))"

subsection \<open>Floats\<close>

text \<open>
  A Python float is an IEEE double: a signed zero, a finite value \<open>\<plusminus> m \<cdot> 2\<^sup>e\<close>, an
  infinity or a NaN. \<open>Finite neg m e\<close> stands for \<open>(if neg then - m else m) \<cdot> 2\<^sup>e\<close>
  (\<open>m = 0\<close> gives the two zeros); the range limits of the mantissa and of the exponent
  play no part in the routes, so they are not recorded.
\<close>

datatype pyfloat = Finite bool nat int | Infinity bool | NaN

text \<open>The default \<^verbatim>\<open>0.0\<close> of the \<^verbatim>\<open>pitch\<close> argument.\<close>

definition float_zero :: pyfloat where
  "float_zero = Finite False 0 0"

text \<open>\<^verbatim>\<open>pitch != 0.0\<close>: true of NaN and of the infinities, false of both zeros.\<close>

fun float_nonzero :: "pyfloat \<Rightarrow> bool" where
  "float_nonzero (Finite neg m e) = (m \<noteq> 0)"
| "float_nonzero (Infinity neg) = True"
| "float_nonzero NaN = True"

text \<open>The sign character of the format specifier \<^verbatim>\<open>+\<close>.\<close>

definition sign_char :: "bool \<Rightarrow> char" where
  "sign_char neg = (if neg then CHR ''-'' else CHR ''+'')"

text \<open>
  The number of tenths nearest to \<open>m \<cdot> 2\<^sup>e\<close>, a tie going to the even one: the
  correctly rounded conversion that \<^verbatim>\<open>format(x, ".1f")\<close> performs on the exact
  value of the double.
\<close>

definition round_tenths :: "nat \<Rightarrow> int \<Rightarrow> nat" where
  "round_tenths m e =
     (if 0 \<le> e then m * 2 ^ nat e * 10
      else let d = 2 ^ nat (- e); q = (m * 10) div d; r = (m * 10) mod d
           in if d < 2 * r \<or> (d = 2 * r \<and> odd q) then q + 1 else q)"

text \<open>\<^verbatim>\<open>f"{x:+.1f}"\<close>.\<close>

fun format_plus_1f :: "pyfloat \<Rightarrow> string" where
  "format_plus_1f (Finite neg m e) =
     (let t = round_tenths m e
      in sign_char neg # str_nat (t div 10) @ CHR ''.'' # [digit (t mod 10)])"
| "format_plus_1f (Infinity neg) = sign_char neg # ''inf''"
| "format_plus_1f NaN = ''+nan''"

text \<open>
  \<^verbatim>\<open>int(x)\<close>: truncation towards zero; \<^verbatim>\<open>int(float("nan"))\<close> raises
  ValueError and \<^verbatim>\<open>int(float("inf"))\<close> raises OverflowError.
\<close>

text \<open>
  What an exception of Werkzeug has as its description: a text, or, after
  \<^verbatim>\<open>raise BadRequest(ex)\<close>, the ValueError \<open>ex\<close> itself, an object that has a message.
\<close>

datatype description = Text string | ValueErrorObject string

datatype error =
  BadRequest description | ValueError | OverflowError | AttributeError | TypeError

fun float_int :: "pyfloat \<Rightarrow> error + int" where
  "float_int (Finite neg m e) =
     (let a = (if 0 \<le> e then int m * 2 ^ nat e else int m div 2 ^ nat (- e))
      in Inr (if neg then - a else a))"
| "float_int (Infinity neg) = Inl OverflowError"
| "float_int NaN = Inl ValueError"

text \<open>\<^verbatim>\<open>x == i\<close> for a float \<open>x\<close> and an integer \<open>i\<close>: Python compares the exact
  values.\<close>

fun float_eq_int :: "pyfloat \<Rightarrow> int \<Rightarrow> bool" where
  "float_eq_int (Finite neg m e) i =
     (let a = (if neg then - int m else int m)
      in if 0 \<le> e then a * 2 ^ nat e = i else a = i * 2 ^ nat (- e))"
| "float_eq_int (Infinity neg) i = False"
| "float_eq_int NaN i = False"

subsection \<open>What the platform provides\<close>

text \<open>
  Two builtins of Python are taken as parameters: \<^verbatim>\<open>float(text)\<close> (\<open>None\<close> when it
  raises ValueError) and \<^verbatim>\<open>str(x)\<close> of a float, the shortest text that reads back
  as \<open>x\<close>. \<open>gettempdir\<close> is the result of \<^verbatim>\<open>tempfile.gettempdir()\<close>.
\<close>

record platform =
  py_float :: "string \<Rightarrow> pyfloat option"
  py_str_float :: "pyfloat \<Rightarrow> string"
  gettempdir :: string

subsection \<open>JSON values and responses\<close>

text \<open>A dictionary keeps its keys in insertion order: an association list.\<close>

datatype json = JStr string | JInt int | JList "json list" | JObj "(string \<times> json) list"

text \<open>What a route returns: \<open>Json v\<close> is the call \<^verbatim>\<open>jsonify(v)\<close> with the value that
  the route hands to it, a dictionary in its order of insertion (the text that the call
  writes is given by \<open>jsonify\<close> below); \<open>ZipFile\<close> is \<^verbatim>\<open>send_file(tmpfile)\<close> of a zip
  archive, given by its path and its entries (file written, name in the archive).\<close>

datatype response = Json json | ZipFile string "(string \<times> string) list"

section \<open>The engine and the request\<close>

text \<open>
  \<^verbatim>\<open>shabda.dj.Dj\<close> is not part of the routes: its methods are parameters, over a
  state \<open>'s\<close> that stands for the sample cache. \<^verbatim>\<open>parse_definition\<close> returns the
  ordered mapping from word to count (\<open>None\<close> when omitted) or raises ValueError with a
  message (\<open>Inl\<close>). The other methods are taken not to raise; \<open>list_sounds\<close> is
  \<^verbatim>\<open>dj.list\<close>. The mapping is a list of pairs in the order of insertion; that its
  keys are distinct is a hypothesis where it matters.
\<close>

record Sound =
  sound_file :: string
  sound_licensename :: string
  sound_url :: string
  sound_username :: string

datatype pyval = PyTrue | PyFalse | PyNone | PyInt int | PyStr string

text \<open>The arguments of one call of \<^verbatim>\<open>dj.list\<close>; \<open>None\<close> is an argument that the
  call leaves out.\<close>

record list_args =
  la_word :: string
  la_number :: "int option option"
  la_licenses :: "string list option option"
  la_gender :: "string option"
  la_language :: "string option"
  la_soundtype :: "string option"

type_synonym words = "(string \<times> int option) list"

record 's Dj =
  parse_definition :: "string \<Rightarrow> string + words"
  fetch :: "string \<Rightarrow> int \<Rightarrow> string list option \<Rightarrow> 's \<Rightarrow> pyval \<times> 's"
  speak :: "string \<Rightarrow> string \<Rightarrow> string \<Rightarrow> pyfloat \<Rightarrow> 's \<Rightarrow> pyval \<times> 's"
  list_sounds :: "list_args \<Rightarrow> 's \<Rightarrow> Sound list \<times> 's"

text \<open>
  The request: the query arguments (\<^verbatim>\<open>request.args\<close>, the first value of a key
  counts), the host name and the port of \<^verbatim>\<open>urlparse(request.base_url)\<close>, and the
  \<^verbatim>\<open>SCRIPT_NAME\<close> entry of the WSGI environment. This is a request whose URL has a
  host; the URL without one comes at the end, with \<open>pack_json_url\<close>. A port that
  \<^verbatim>\<open>urlparse\<close> refuses (not a number below \<open>65536\<close>) is not modelled.
\<close>

record request =
  args :: "(string \<times> string) list"
  hostname :: string
  port :: "nat option"
  script_name :: "string option"

text \<open>\<^verbatim>\<open>request.args.get(key, False, type=bool)\<close>: \<^verbatim>\<open>bool(text)\<close> is true of
  every non-empty text.\<close>

definition arg_bool :: "request \<Rightarrow> string \<Rightarrow> bool" where
  "arg_bool req key = (case map_of (args req) key of None \<Rightarrow> False | Some v \<Rightarrow> v \<noteq> [])"

text \<open>\<^verbatim>\<open>request.args.get(key, default)\<close>.\<close>

definition arg_str :: "request \<Rightarrow> string \<Rightarrow> string \<Rightarrow> string" where
  "arg_str req key dflt = (case map_of (args req) key of None \<Rightarrow> dflt | Some v \<Rightarrow> v)"

text \<open>\<^verbatim>\<open>request.args.get("pitch", 0.0, type=float)\<close>: the default also when the
  conversion fails.\<close>

definition arg_pitch :: "platform \<Rightarrow> request \<Rightarrow> pyfloat" where
  "arg_pitch py req =
     (case map_of (args req) ''pitch'' of
        None \<Rightarrow> float_zero
      | Some v \<Rightarrow> (case py_float py v of None \<Rightarrow> float_zero | Some x \<Rightarrow> x))"

text \<open>\<^verbatim>\<open>licenses = request.args.get("licenses")\<close>, split at the commas when
  present.\<close>

definition arg_licenses :: "request \<Rightarrow> string list option" where
  "arg_licenses req = map_option split_comma (map_of (args req) ''licenses'')"

subsection \<open>\<^verbatim>\<open>asyncio.gather\<close>\<close>

text \<open>
  A task is a state transformer that returns a value. \<^verbatim>\<open>gather\<close> runs the tasks
  concurrently and returns their results in the order of the tasks, whatever the order
  in which they complete. The model runs each task in one piece and takes the order
  from a list of choices: each choice picks one of the tasks still pending (modulo
  their number, the first one when the choices are used up), so that every list of
  choices is an order of completion and every order has its list.
\<close>

type_synonym ('s, 'a) task = "'s \<Rightarrow> 'a \<times> 's"

function run_pending ::
  "nat list \<Rightarrow> (nat \<times> ('s, 'a) task) list \<Rightarrow> 's \<Rightarrow> (nat \<times> 'a) list \<times> 's" where
  "run_pending cs pending s =
     (if pending = [] then ([], s)
      else let k = (case cs of [] \<Rightarrow> 0 | c # _ \<Rightarrow> c mod length pending);
               it = pending ! k;
               rs = snd it s;
               rest = run_pending (tl cs) (take k pending @ drop (Suc k) pending) (snd rs)
           in ((fst it, fst rs) # fst rest, snd rest))"
  by pat_completeness auto
termination
proof (relation "measure (\<lambda>(cs, pending, s). length pending)", goal_cases)
  case 1
  show ?case by simp
next
  case (2 cs pending s k it rs)
  from 2(1) have "0 < length pending" by simp
  with 2(2) have "k < length pending"
    by (cases cs) simp_all
  then show ?case by simp
qed

declare run_pending.simps [simp del]

definition gather :: "nat list \<Rightarrow> ('s, 'a) task list \<Rightarrow> 's \<Rightarrow> 'a list \<times> 's" where
  "gather cs tasks s =
     (let r = run_pending cs (zip [0..<length tasks] tasks) s
      in (map snd (sort_key fst (fst r)), snd r))"

section \<open>The routes\<close>

subsection \<open>Helpers at the end of the module\<close>

definition speak_one ::
  "'s Dj \<Rightarrow> string \<Rightarrow> string \<Rightarrow> string \<Rightarrow> pyfloat \<Rightarrow> ('s, pyval) task" where
  "speak_one dj word language gender pitch = speak dj word language gender pitch"

definition fetch_one ::
  "'s Dj \<Rightarrow> string \<Rightarrow> int \<Rightarrow> string list option \<Rightarrow> ('s, pyval) task" where
  "fetch_one dj word number licenses = fetch dj word number licenses"

text \<open>\<^verbatim>\<open>word + (":" + str(number) if number else "")\<close>: a count that is \<open>None\<close> or
  \<open>0\<close> is left out.\<close>

definition clean_segment :: "string \<times> int option \<Rightarrow> string" where
  "clean_segment wn =
     fst wn @ (case snd wn of
                 None \<Rightarrow> []
               | Some n \<Rightarrow> if n = 0 then [] else CHR '':'' # str_int n)"

definition clean_definition :: "words \<Rightarrow> string" where
  "clean_definition ws = join_comma (map clean_segment ws)"

subsection \<open>\<^verbatim>\<open>/pack/<definition>\<close> and \<^verbatim>\<open>/speech/<definition>\<close>\<close>

text \<open>The loop over the results of \<^verbatim>\<open>gather\<close>: \<^verbatim>\<open>if status is True\<close>.\<close>

fun status_loop :: "string \<Rightarrow> pyval list \<Rightarrow> string" where
  "status_loop global_status [] = global_status"
| "status_loop global_status (status # results) =
     status_loop (if status = PyTrue then ''ok'' else global_status) results"

definition status_response :: "string \<Rightarrow> words \<Rightarrow> response" where
  "status_response global_status ws =
     Json (JObj [(''status'', JStr global_status),
                 (''definition'', JStr (clean_definition ws))])"

text \<open>The tasks of \<^verbatim>\<open>pack\<close>, one for each entry of the mapping, in its order.\<close>

fun pack_tasks :: "'s Dj \<Rightarrow> string list option \<Rightarrow> words \<Rightarrow> ('s, pyval) task list" where
  "pack_tasks dj licenses [] = []"
| "pack_tasks dj licenses ((word, number) # ws) =
     fetch_one dj word (case number of None \<Rightarrow> 1 | Some n \<Rightarrow> n) licenses
       # pack_tasks dj licenses ws"

text \<open>The last argument \<open>cs\<close> of a route that gathers tasks is the order in which they
  complete.\<close>

definition pack ::
  "'s Dj \<Rightarrow> request \<Rightarrow> nat list \<Rightarrow> string \<Rightarrow> 's \<Rightarrow> (error + response) \<times> 's" where
  "pack dj req cs defn s =
     (let licenses = arg_licenses req
      in case parse_definition dj defn of
           Inl ex \<Rightarrow> (Inl (BadRequest (ValueErrorObject ex)), s)
         | Inr ws \<Rightarrow>
             (let r = gather cs (pack_tasks dj licenses ws) s;
                  global_status = status_loop ''empty'' (fst r)
              in (Inr (status_response global_status ws), snd r)))"

fun speech_tasks ::
  "'s Dj \<Rightarrow> string \<Rightarrow> string \<Rightarrow> pyfloat \<Rightarrow> words \<Rightarrow> ('s, pyval) task list" where
  "speech_tasks dj language gender pitch [] = []"
| "speech_tasks dj language gender pitch ((word, number) # ws) =
     speak_one dj word language gender pitch # speech_tasks dj language gender pitch ws"

definition speech ::
  "platform \<Rightarrow> 's Dj \<Rightarrow> request \<Rightarrow> nat list \<Rightarrow> string \<Rightarrow> 's \<Rightarrow> (error + response) \<times> 's" where
  "speech py dj req cs defn0 s =
     (let gender = arg_str req ''gender'' ''f'';
          language = arg_str req ''language'' ''en-GB'';
          pitch = arg_pitch py req;
          defn = replace_spaces defn0
      in case parse_definition dj defn of
           Inl ex \<Rightarrow> (Inl (BadRequest (ValueErrorObject ex)), s)
         | Inr ws \<Rightarrow>
             (let r = gather cs (speech_tasks dj language gender pitch ws) s;
                  global_status = status_loop ''empty'' (fst r)
              in (Inr (status_response global_status ws), snd r)))"

subsection \<open>The base of the listing\<close>

text \<open>\<^verbatim>\<open>if url.port:\<close> holds of a port that is present and not \<open>0\<close>.\<close>

definition base_url :: "request \<Rightarrow> string" where
  "base_url req =
     ''https://'' @ hostname req
       @ (case port req of None \<Rightarrow> [] | Some p \<Rightarrow> if p = 0 then [] else CHR '':'' # str_nat p)
       @ (case script_name req of None \<Rightarrow> [] | Some sn \<Rightarrow> sn)
       @ ''/''"

subsection \<open>Adding a sound to the listing\<close>

text \<open>
  Grouped mode: \<^verbatim>\<open>if key not in reslist: reslist[key] = []\<close>, then
  \<^verbatim>\<open>reslist[key].append(sound.file)\<close>. The value under the key has to be a list:
  a text has no \<^verbatim>\<open>append\<close> (AttributeError).
\<close>

definition strudel_append :: "string \<Rightarrow> Sound \<Rightarrow> json \<Rightarrow> error + json" where
  "strudel_append key sound reslist =
     (case reslist of
        JObj d \<Rightarrow>
          (let d' = (if map_of d key = None then AList.update key (JList []) d else d)
           in case map_of d' key of
                Some (JList fs) \<Rightarrow>
                  Inr (JObj (AList.update key (JList (fs @ [JStr (sound_file sound)])) d'))
              | _ \<Rightarrow> Inl AttributeError)
      | _ \<Rightarrow> Inl TypeError)"

text \<open>Flat mode: \<^verbatim>\<open>reslist.append(sound_data)\<close>.\<close>

definition flat_append :: "json \<Rightarrow> json \<Rightarrow> error + json" where
  "flat_append sound_data reslist =
     (case reslist of JList rs \<Rightarrow> Inr (JList (rs @ [sound_data])) | _ \<Rightarrow> Inl AttributeError)"

definition sound_data :: "bool \<Rightarrow> string \<Rightarrow> int \<Rightarrow> Sound \<Rightarrow> json" where
  "sound_data complete bank sample_num sound =
     JObj ([(''url'', JStr (sound_file sound)), (''type'', JStr ''audio''),
            (''bank'', JStr bank), (''n'', JInt sample_num)]
           @ (if complete
              then [(''licensename'', JStr (sound_licensename sound)),
                    (''original_url'', JStr (sound_url sound)),
                    (''author'', JStr (sound_username sound))]
              else []))"

subsection \<open>\<^verbatim>\<open>/<definition>.json\<close>\<close>

fun pack_json_sounds ::
  "bool \<Rightarrow> bool \<Rightarrow> string \<Rightarrow> Sound list \<Rightarrow> json \<Rightarrow> int \<Rightarrow> error + json" where
  "pack_json_sounds complete strudel word [] reslist sample_num = Inr reslist"
| "pack_json_sounds complete strudel word (sound # samples) reslist sample_num =
     (if strudel
      then (case strudel_append word sound reslist of
              Inl err \<Rightarrow> Inl err
            | Inr reslist' \<Rightarrow>
                pack_json_sounds complete strudel word samples reslist' sample_num)
      else (case flat_append (sound_data complete word sample_num sound) reslist of
              Inl err \<Rightarrow> Inl err
            | Inr reslist' \<Rightarrow>
                pack_json_sounds complete strudel word samples reslist' (sample_num + 1)))"

fun pack_json_words ::
  "'s Dj \<Rightarrow> bool \<Rightarrow> string list option \<Rightarrow> bool \<Rightarrow> words \<Rightarrow> json \<Rightarrow> 's
     \<Rightarrow> (error + json) \<times> 's" where
  "pack_json_words dj complete licenses strudel [] reslist s = (Inr reslist, s)"
| "pack_json_words dj complete licenses strudel ((word, number) # ws) reslist s =
     (let r = list_sounds dj
                \<lparr>la_word = word, la_number = Some number, la_licenses = Some licenses,
                 la_gender = None, la_language = None, la_soundtype = None\<rparr> s
      in case pack_json_sounds complete strudel word (fst r) reslist 0 of
           Inl err \<Rightarrow> (Inl err, snd r)
         | Inr reslist' \<Rightarrow> pack_json_words dj complete licenses strudel ws reslist' (snd r))"

definition pack_json ::
  "'s Dj \<Rightarrow> request \<Rightarrow> nat list \<Rightarrow> string \<Rightarrow> 's \<Rightarrow> (error + response) \<times> 's" where
  "pack_json dj req cs defn s =
     (let complete = arg_bool req ''complete'';
          licenses = arg_licenses req;
          strudel = arg_bool req ''strudel''
      in case pack dj req cs defn s of
           (Inl err, s1) \<Rightarrow> (Inl err, s1)
         | (Inr _, s1) \<Rightarrow>
             (let base = base_url req
              in case parse_definition dj defn of
                   Inl ex \<Rightarrow> (Inl (BadRequest (ValueErrorObject ex)), s1)
                 | Inr ws \<Rightarrow>
                     (let reslist = (if strudel then JObj [(''_base'', JStr base)] else JList [])
                      in case pack_json_words dj complete licenses strudel ws reslist s1 of
                           (Inl err, s2) \<Rightarrow> (Inl err, s2)
                         | (Inr reslist', s2) \<Rightarrow> (Inr (Json reslist'), s2))))"

subsection \<open>\<^verbatim>\<open>/speech/<definition>.json\<close>\<close>

text \<open>
  The choice of the samples and of the key of one word, for the requested pitch.
  The key is computed after the samples are filtered: \<^verbatim>\<open>int(pitch)\<close> raises for an
  infinity and for NaN.
\<close>

definition select_pitch ::
  "platform \<Rightarrow> pyfloat \<Rightarrow> string \<Rightarrow> Sound list \<Rightarrow> error + (Sound list \<times> string)" where
  "select_pitch py pitch word samples =
     (if float_nonzero pitch
      then (let pitch_suffix = ''_p'' @ format_plus_1f pitch;
                samples' = filter (\<lambda>s. str_in pitch_suffix (sound_file s)) samples
            in case float_int pitch of
                 Inl err \<Rightarrow> Inl err
               | Inr i \<Rightarrow>
                   (let pitch_int = (if float_eq_int pitch i then str_int i
                                     else py_str_float py pitch)
                    in Inr (samples', word @ ''_p'' @ pitch_int)))
      else Inr (filter (\<lambda>s. \<not> str_in ''_p+'' (sound_file s) \<and> \<not> str_in ''_p-'' (sound_file s))
                  samples,
                word))"

fun speech_json_sounds ::
  "bool \<Rightarrow> string \<Rightarrow> Sound list \<Rightarrow> json \<Rightarrow> int \<Rightarrow> error + json" where
  "speech_json_sounds strudel sample_key [] reslist sample_num = Inr reslist"
| "speech_json_sounds strudel sample_key (sound # samples) reslist sample_num =
     (if strudel
      then (case strudel_append sample_key sound reslist of
              Inl err \<Rightarrow> Inl err
            | Inr reslist' \<Rightarrow>
                speech_json_sounds strudel sample_key samples reslist' sample_num)
      else (case flat_append (sound_data False sample_key sample_num sound) reslist of
              Inl err \<Rightarrow> Inl err
            | Inr reslist' \<Rightarrow>
                speech_json_sounds strudel sample_key samples reslist' (sample_num + 1)))"

fun speech_json_words ::
  "platform \<Rightarrow> 's Dj \<Rightarrow> string \<Rightarrow> string \<Rightarrow> pyfloat \<Rightarrow> bool \<Rightarrow> words \<Rightarrow> json \<Rightarrow> 's
     \<Rightarrow> (error + json) \<times> 's" where
  "speech_json_words py dj gender language pitch strudel [] reslist s = (Inr reslist, s)"
| "speech_json_words py dj gender language pitch strudel ((word, number) # ws) reslist s =
     (let r = list_sounds dj
                \<lparr>la_word = word, la_number = None, la_licenses = None,
                 la_gender = Some gender, la_language = Some language,
                 la_soundtype = Some ''tts''\<rparr> s
      in case select_pitch py pitch word (fst r) of
           Inl err \<Rightarrow> (Inl err, snd r)
         | Inr (samples, sample_key) \<Rightarrow>
             (case speech_json_sounds strudel sample_key samples reslist 0 of
                Inl err \<Rightarrow> (Inl err, snd r)
              | Inr reslist' \<Rightarrow>
                  speech_json_words py dj gender language pitch strudel ws reslist' (snd r)))"

definition speech_json ::
  "platform \<Rightarrow> 's Dj \<Rightarrow> request \<Rightarrow> nat list \<Rightarrow> string \<Rightarrow> 's \<Rightarrow> (error + response) \<times> 's" where
  "speech_json py dj req cs defn0 s =
     (let strudel = arg_bool req ''strudel'';
          gender = arg_str req ''gender'' ''f'';
          language = arg_str req ''language'' ''en-GB'';
          pitch = arg_pitch py req;
          defn = replace_spaces defn0
      in case speech py dj req cs defn s of
           (Inl err, s1) \<Rightarrow> (Inl err, s1)
         | (Inr _, s1) \<Rightarrow>
             (let base = base_url req
              in case parse_definition dj defn of
                   Inl ex \<Rightarrow> (Inl (BadRequest (ValueErrorObject ex)), s1)
                 | Inr ws \<Rightarrow>
                     (let reslist = (if strudel then JObj [(''_base'', JStr base)] else JList [])
                      in case speech_json_words py dj gender language pitch strudel ws reslist s1 of
                           (Inl err, s2) \<Rightarrow> (Inl err, s2)
                         | (Inr reslist', s2) \<Rightarrow> (Inr (Json reslist'), s2))))"

subsection \<open>The zip archives\<close>

text \<open>
  \<^verbatim>\<open>zipfile.write(sample.file, sample.file[len(prefix):])\<close> for every sample of
  every word; the archive is given by the list of its entries. Reading the files and
  removing the archive after the request are not modelled.
\<close>

fun pack_zip_words :: "'s Dj \<Rightarrow> words \<Rightarrow> 's \<Rightarrow> (string \<times> string) list \<times> 's" where
  "pack_zip_words dj [] s = ([], s)"
| "pack_zip_words dj ((word, number) # ws) s =
     (let r = list_sounds dj
                \<lparr>la_word = word, la_number = Some number, la_licenses = None,
                 la_gender = None, la_language = None, la_soundtype = None\<rparr> s;
          rest = pack_zip_words dj ws (snd r)
      in (map (\<lambda>sample. (sound_file sample, drop (length ''samples/'') (sound_file sample)))
            (fst r) @ fst rest,
          snd rest))"

definition pack_zip ::
  "platform \<Rightarrow> 's Dj \<Rightarrow> string \<Rightarrow> 's \<Rightarrow> (error + response) \<times> 's" where
  "pack_zip py dj defn0 s =
     (case parse_definition dj defn0 of
        Inl ex \<Rightarrow> (Inl (BadRequest (ValueErrorObject ex)), s)
      | Inr ws \<Rightarrow>
          (let defn = clean_definition ws;
               tmpfile = gettempdir py @ ''/'' @ defn @ ''.zip'';
               r = pack_zip_words dj ws s
           in (Inr (ZipFile tmpfile (fst r)), snd r)))"

fun speech_zip_words :: "'s Dj \<Rightarrow> words \<Rightarrow> 's \<Rightarrow> (string \<times> string) list \<times> 's" where
  "speech_zip_words dj [] s = ([], s)"
| "speech_zip_words dj ((word, number) # ws) s =
     (let r = list_sounds dj
                \<lparr>la_word = word, la_number = Some number, la_licenses = None,
                 la_gender = None, la_language = None, la_soundtype = Some ''tts''\<rparr> s;
          rest = speech_zip_words dj ws (snd r)
      in (map (\<lambda>sample.
                 (sound_file sample, drop (length ''speech_samples/'') (sound_file sample)))
            (fst r) @ fst rest,
          snd rest))"

definition speech_zip ::
  "platform \<Rightarrow> 's Dj \<Rightarrow> string \<Rightarrow> 's \<Rightarrow> (error + response) \<times> 's" where
  "speech_zip py dj defn0 s =
     (let defn = replace_spaces defn0
      in case parse_definition dj defn of
           Inl ex \<Rightarrow> (Inl (BadRequest (ValueErrorObject ex)), s)
         | Inr ws \<Rightarrow>
             (let tmpfile = gettempdir py @ ''/'' @ defn @ ''.zip'';
                  r = speech_zip_words dj ws s
              in (Inr (ZipFile tmpfile (fst r)), snd r)))"

section \<open>The response to the client\<close>

subsection \<open>The error handler\<close>

text \<open>An HTTP exception of Werkzeug, as far as \<^verbatim>\<open>handle_exception\<close> reads it, and
  the response of a request: its status, its content type and what it holds (a JSON
  value with the keys in the order of the text).\<close>

record http_exception =
  exc_code :: nat
  exc_name :: string
  exc_description :: description

record http_response =
  resp_status :: nat
  resp_content_type :: string
  resp_data :: response

text \<open>
  \<^verbatim>\<open>handle_exception\<close>, the handler of the blueprint for every HTTPException: the
  response of the exception with its status code, the body replaced by
  \<^verbatim>\<open>json.dumps({"code": ..., "name": ..., "description": exception.description})\<close>.
  \<^verbatim>\<open>json.dumps\<close> writes a text; of a description that is an exception object it
  raises TypeError.
\<close>

definition handle_exception :: "http_exception \<Rightarrow> error + http_response" where
  "handle_exception exception =
     (case exc_description exception of
        Text d \<Rightarrow>
          Inr \<lparr>resp_status = exc_code exception, resp_content_type = ''application/json'',
               resp_data = Json (JObj [(''code'', JInt (int (exc_code exception))),
                                       (''name'', JStr (exc_name exception)),
                                       (''description'', JStr d)])\<rparr>
      | ValueErrorObject m \<Rightarrow> Inl TypeError)"

subsection \<open>What Flask does with the outcome of a route\<close>

text \<open>
  The rest of the way to the client is Flask's, taken from its documentation and not
  from the routes. \<^verbatim>\<open>jsonify\<close> writes the keys of every object in sorted order (the
  default of the application, \<^verbatim>\<open>sort_keys\<close>); texts are compared character by
  character.
\<close>

primrec jsonify :: "json \<Rightarrow> json" where
  "jsonify (JStr t) = JStr t"
| "jsonify (JInt i) = JInt i"
| "jsonify (JList vs) = JList (map jsonify vs)"
| "jsonify (JObj d) = JObj (sort_key fst (map (map_prod id jsonify) d))"

text \<open>The exception that Flask makes of an exception that is not an HTTPException, also
  of one that an error handler raises.\<close>

definition internal_server_error :: http_exception where
  "internal_server_error =
     \<lparr>exc_code = 500, exc_name = ''Internal Server Error'',
      exc_description = Text ''The server encountered an internal error and was unable to complete your request. Either the server is overloaded or there is an error in the application.''\<rparr>"

text \<open>
  A route that returns is answered with status \<open>200\<close>. BadRequest is an HTTPException
  with the code \<open>400\<close>: it goes to \<^verbatim>\<open>handle_exception\<close>. Every other exception, and
  an exception that \<^verbatim>\<open>handle_exception\<close> raises, becomes the internal server error,
  which goes to \<^verbatim>\<open>handle_exception\<close> in its turn. The header that
  \<^verbatim>\<open>cors_after\<close> adds is not modelled.
\<close>

definition server_error_response :: http_response where
  "server_error_response =
     (case handle_exception internal_server_error of
        Inr resp \<Rightarrow> resp
      | Inl err \<Rightarrow> \<lparr>resp_status = 500, resp_content_type = ''text/html'',
                     resp_data = Json (JObj [])\<rparr>)"

definition respond :: "error + response \<Rightarrow> http_response" where
  "respond outcome =
     (case outcome of
        Inr (Json v) \<Rightarrow>
          \<lparr>resp_status = 200, resp_content_type = ''application/json'',
           resp_data = Json (jsonify v)\<rparr>
      | Inr (ZipFile tmpfile entries) \<Rightarrow>
          \<lparr>resp_status = 200, resp_content_type = ''application/zip'',
           resp_data = ZipFile tmpfile entries\<rparr>
      | Inl (BadRequest d) \<Rightarrow>
          (case handle_exception
                  \<lparr>exc_code = 400, exc_name = ''Bad Request'', exc_description = d\<rparr> of
             Inr resp \<Rightarrow> resp
           | Inl err \<Rightarrow> server_error_response)
      | Inl err \<Rightarrow> server_error_response)"

subsection \<open>A URL without a host\<close>

text \<open>
  \<^verbatim>\<open>pack_json\<close> and \<^verbatim>\<open>speech_json\<close> above are the routes for a request whose URL
  has a host. \<^verbatim>\<open>urlparse\<close> gives \<^verbatim>\<open>None\<close> as the host name of a URL that has none:
  then \<^verbatim>\<open>"https://" + url.hostname\<close> raises TypeError, after \<^verbatim>\<open>pack\<close> (or
  \<^verbatim>\<open>speech\<close>) has been awaited. The routes for every URL take the host name as
  \<^verbatim>\<open>urlparse\<close> gives it; the field \<open>hostname\<close> of the request is not read.
\<close>

definition pack_json_url ::
  "'s Dj \<Rightarrow> string option \<Rightarrow> request \<Rightarrow> nat list \<Rightarrow> string \<Rightarrow> 's \<Rightarrow> (error + response) \<times> 's" where
  "pack_json_url dj url_hostname req cs defn s =
     (case url_hostname of
        Some h \<Rightarrow> pack_json dj (req\<lparr>hostname := h\<rparr>) cs defn s
      | None \<Rightarrow>
          (case pack dj req cs defn s of
             (Inl err, s1) \<Rightarrow> (Inl err, s1)
           | (Inr _, s1) \<Rightarrow> (Inl TypeError, s1)))"

definition speech_json_url ::
  "platform \<Rightarrow> 's Dj \<Rightarrow> string option \<Rightarrow> request \<Rightarrow> nat list \<Rightarrow> string \<Rightarrow> 's
     \<Rightarrow> (error + response) \<times> 's" where
  "speech_json_url py dj url_hostname req cs defn0 s =
     (case url_hostname of
        Some h \<Rightarrow> speech_json py dj (req\<lparr>hostname := h\<rparr>) cs defn0 s
      | None \<Rightarrow>
          (case speech py dj req cs (replace_spaces defn0) s of
             (Inl err, s1) \<Rightarrow> (Inl err, s1)
           | (Inr _, s1) \<Rightarrow> (Inl TypeError, s1)))"

section \<open>What the listing holds\<close>

text \<open>
  The definitions of this section do not come from the routes: they say what a listing
  is, so that the loops of the routes can be compared with it.
\<close>

text \<open>A field of a JSON object.\<close>

definition json_field :: "string \<Rightarrow> json \<Rightarrow> json option" where
  "json_field key j = (case j of JObj d \<Rightarrow> map_of d key | _ \<Rightarrow> None)"

text \<open>The samples that \<^verbatim>\<open>dj.list\<close> returns for each word of the mapping, when it is
  called for the words in their order, as the loop of \<^verbatim>\<open>pack_json\<close> does; the
  state goes from one call to the next.\<close>

fun pack_listing ::
  "'s Dj \<Rightarrow> string list option \<Rightarrow> words \<Rightarrow> 's \<Rightarrow> (string \<times> Sound list) list \<times> 's" where
  "pack_listing dj licenses [] s = ([], s)"
| "pack_listing dj licenses ((word, number) # ws) s =
     (let r = list_sounds dj
                \<lparr>la_word = word, la_number = Some number, la_licenses = Some licenses,
                 la_gender = None, la_language = None, la_soundtype = None\<rparr> s;
          rest = pack_listing dj licenses ws (snd r)
      in ((word, fst r) # fst rest, snd rest))"

text \<open>The same for the calls of \<^verbatim>\<open>speech_json\<close>.\<close>

fun speech_listing ::
  "'s Dj \<Rightarrow> string \<Rightarrow> string \<Rightarrow> words \<Rightarrow> 's \<Rightarrow> (string \<times> Sound list) list \<times> 's" where
  "speech_listing dj gender language [] s = ([], s)"
| "speech_listing dj gender language ((word, number) # ws) s =
     (let r = list_sounds dj
                \<lparr>la_word = word, la_number = None, la_licenses = None,
                 la_gender = Some gender, la_language = Some language,
                 la_soundtype = Some ''tts''\<rparr> s;
          rest = speech_listing dj gender language ws (snd r)
      in ((word, fst r) # fst rest, snd rest))"

text \<open>A record of the flat listing, as the schema gives it.\<close>

definition listing_record :: "bool \<Rightarrow> string \<Rightarrow> nat \<Rightarrow> Sound \<Rightarrow> json" where
  "listing_record complete bank n sound =
     JObj (if complete
           then [(''url'', JStr (sound_file sound)), (''type'', JStr ''audio''),
                 (''bank'', JStr bank), (''n'', JInt (int n)),
                 (''licensename'', JStr (sound_licensename sound)),
                 (''original_url'', JStr (sound_url sound)),
                 (''author'', JStr (sound_username sound))]
           else [(''url'', JStr (sound_file sound)), (''type'', JStr ''audio''),
                 (''bank'', JStr bank), (''n'', JInt (int n))])"

text \<open>The flat listing of groups of samples: the records of a group follow one
  another, numbered from \<open>0\<close> in each group.\<close>

definition flat_records :: "bool \<Rightarrow> (string \<times> Sound list) list \<Rightarrow> json list" where
  "flat_records complete groups =
     concat (map (\<lambda>g. map (\<lambda>ns. listing_record complete (fst g) (fst ns) (snd ns))
                          (enumerate 0 (snd g)))
                 groups)"

text \<open>The grouped listing: one entry for each group that has a sample, the files of the
  group in their order.\<close>

definition strudel_groups :: "(string \<times> Sound list) list \<Rightarrow> (string \<times> json) list" where
  "strudel_groups groups =
     map (\<lambda>g. (fst g, JList (map (\<lambda>sound. JStr (sound_file sound)) (snd g))))
       (filter (\<lambda>g. snd g \<noteq> []) groups)"

definition listing_json ::
  "bool \<Rightarrow> bool \<Rightarrow> string \<Rightarrow> (string \<times> Sound list) list \<Rightarrow> json" where
  "listing_json complete strudel base groups =
     (if strudel then JObj ((''_base'', JStr base) # strudel_groups groups)
      else JList (flat_records complete groups))"

text \<open>The loop over the words without the calls of the engine: the groups are added
  to the listing one after the other, by the loop over the sounds of
  \<^verbatim>\<open>pack_json\<close>.\<close>

fun add_groups :: "bool \<Rightarrow> bool \<Rightarrow> (string \<times> Sound list) list \<Rightarrow> json \<Rightarrow> error + json" where
  "add_groups complete strudel [] reslist = Inr reslist"
| "add_groups complete strudel (g # groups) reslist =
     (case pack_json_sounds complete strudel (fst g) (snd g) reslist 0 of
        Inl err \<Rightarrow> Inl err
      | Inr reslist' \<Rightarrow> add_groups complete strudel groups reslist')"

text \<open>The samples and the key of a word in the speech listing, for a pitch that
  \<^verbatim>\<open>int\<close> accepts.\<close>

definition pitch_selects :: "pyfloat \<Rightarrow> Sound \<Rightarrow> bool" where
  "pitch_selects pitch sound =
     (if float_nonzero pitch then str_in (''_p'' @ format_plus_1f pitch) (sound_file sound)
      else \<not> str_in ''_p+'' (sound_file sound) \<and> \<not> str_in ''_p-'' (sound_file sound))"

text \<open>The pitch in the key: the integer when the pitch is one, the text of the float
  otherwise.\<close>

fun pitch_key_text :: "platform \<Rightarrow> pyfloat \<Rightarrow> string" where
  "pitch_key_text py (Finite neg m e) =
     (if 0 \<le> e then str_int ((if neg then - 1 else 1) * int m * 2 ^ nat e)
      else if 2 ^ nat (- e) dvd m then str_int ((if neg then - 1 else 1) * int (m div 2 ^ nat (- e)))
      else py_str_float py (Finite neg m e))"
| "pitch_key_text py x = py_str_float py x"

definition speech_key :: "platform \<Rightarrow> pyfloat \<Rightarrow> string \<Rightarrow> string" where
  "speech_key py pitch word =
     (if float_nonzero pitch then word @ ''_p'' @ pitch_key_text py pitch else word)"

definition speech_groups ::
  "platform \<Rightarrow> pyfloat \<Rightarrow> (string \<times> Sound list) list \<Rightarrow> (string \<times> Sound list) list" where
  "speech_groups py pitch listing =
     map (\<lambda>g. (speech_key py pitch (fst g), filter (pitch_selects pitch) (snd g))) listing"

fun float_finite :: "pyfloat \<Rightarrow> bool" where
  "float_finite (Finite neg m e) = True"
| "float_finite x = False"

text \<open>The base of the listing as the port being present would give it.\<close>

definition base_with_port :: "request \<Rightarrow> string" where
  "base_with_port req =
     ''https://'' @ hostname req
       @ (case port req of None \<Rightarrow> [] | Some p \<Rightarrow> CHR '':'' # str_nat p)
       @ (case script_name req of None \<Rightarrow> [] | Some sn \<Rightarrow> sn)
       @ ''/''"

text \<open>The state of the engine when the tasks of \<^verbatim>\<open>pack\<close> (of \<^verbatim>\<open>speech\<close>) are
  done, and the groups of samples that the loop of the listing then sees.\<close>

definition pack_state :: "'s Dj \<Rightarrow> request \<Rightarrow> nat list \<Rightarrow> words \<Rightarrow> 's \<Rightarrow> 's" where
  "pack_state dj req cs ws s = snd (gather cs (pack_tasks dj (arg_licenses req) ws) s)"

definition speech_state :: "platform \<Rightarrow> 's Dj \<Rightarrow> request \<Rightarrow> nat list \<Rightarrow> words \<Rightarrow> 's \<Rightarrow> 's" where
  "speech_state py dj req cs ws s =
     snd (gather cs
            (speech_tasks dj (arg_str req ''language'' ''en-GB'') (arg_str req ''gender'' ''f'')
               (arg_pitch py req) ws) s)"

definition pack_json_groups ::
  "'s Dj \<Rightarrow> request \<Rightarrow> nat list \<Rightarrow> words \<Rightarrow> 's \<Rightarrow> (string \<times> Sound list) list" where
  "pack_json_groups dj req cs ws s =
     fst (pack_listing dj (arg_licenses req) ws (pack_state dj req cs ws s))"

definition speech_json_listing ::
  "platform \<Rightarrow> 's Dj \<Rightarrow> request \<Rightarrow> nat list \<Rightarrow> words \<Rightarrow> 's \<Rightarrow> (string \<times> Sound list) list" where
  "speech_json_listing py dj req cs ws s =
     fst (speech_listing dj (arg_str req ''gender'' ''f'') (arg_str req ''language'' ''en-GB'') ws
            (speech_state py dj req cs ws s))"

definition speech_json_groups ::
  "platform \<Rightarrow> 's Dj \<Rightarrow> request \<Rightarrow> nat list \<Rightarrow> words \<Rightarrow> 's \<Rightarrow> (string \<times> Sound list) list" where
  "speech_json_groups py dj req cs ws s =
     speech_groups py (arg_pitch py req) (speech_json_listing py dj req cs ws s)"

text \<open>The files and the keys of a listing, in their order, for both shapes.\<close>

definition json_text :: "json \<Rightarrow> string list" where
  "json_text j = (case j of JStr t \<Rightarrow> [t] | _ \<Rightarrow> [])"

definition field_text :: "string \<Rightarrow> json \<Rightarrow> string list" where
  "field_text key j = (case json_field key j of Some v \<Rightarrow> json_text v | None \<Rightarrow> [])"

definition listing_files :: "json \<Rightarrow> string list" where
  "listing_files j =
     (case j of
        JList recs \<Rightarrow> concat (map (field_text ''url'') recs)
      | JObj d \<Rightarrow> concat (map (\<lambda>kv. case snd kv of JList fs \<Rightarrow> concat (map json_text fs)
                                                  | _ \<Rightarrow> []) d)
      | _ \<Rightarrow> [])"

definition listing_banks :: "json \<Rightarrow> string list" where
  "listing_banks j =
     (case j of
        JList recs \<Rightarrow> concat (map (field_text ''bank'') recs)
      | JObj d \<Rightarrow> map fst d
      | _ \<Rightarrow> [])"

text \<open>A decimal digit.\<close>

definition is_digit :: "char \<Rightarrow> bool" where
  "is_digit c = (c \<in> set ''0123456789'')"

text \<open>A field of the JSON object that a response holds, and the banks or keys of the
  listing that it holds.\<close>

definition response_field :: "string \<Rightarrow> http_response \<Rightarrow> json option" where
  "response_field key resp = (case resp_data resp of Json j \<Rightarrow> json_field key j | _ \<Rightarrow> None)"

definition response_banks :: "http_response \<Rightarrow> string list" where
  "response_banks resp = (case resp_data resp of Json j \<Rightarrow> listing_banks j | _ \<Rightarrow> [])"

section \<open>An engine to run the routes on\<close>

text \<open>
  A small engine for concrete runs. Its state is the cache: the plain samples and the
  speech samples, each a list of word and file. \<open>demo_fetch\<close> finds nothing for the word
  \<^verbatim>\<open>ghostword\<close> and the requested number of samples for every other word;
  \<open>demo_speak\<close> writes the file of the word and pitch unless it is there. The parser
  knows a few definitions and rejects the rest.
\<close>

type_synonym demo_cache = "(string \<times> string) list \<times> (string \<times> string) list"

definition demo_parse :: "string \<Rightarrow> string + words" where
  "demo_parse d =
     (if d = ''dog:2,cat'' then Inr [(''dog'', Some 2), (''cat'', None)]
      else if d = ''dog,ghostword'' then Inr [(''dog'', None), (''ghostword'', None)]
      else if d = ''ghostword'' then Inr [(''ghostword'', None)]
      else if d = ''fox'' then Inr [(''fox'', None)]
      else if d = ''red_fox'' then Inr [(''red_fox'', None)]
      else if d = ''_base'' then Inr [(''_base'', None)]
      else Inl ''Wrong definition'')"

definition demo_sound :: "string \<Rightarrow> Sound" where
  "demo_sound f =
     \<lparr>sound_file = f, sound_licensename = ''cc0'', sound_url = ''https://freesound.org/s/1'',
      sound_username = ''someone''\<rparr>"

definition demo_fetch :: "string \<Rightarrow> int \<Rightarrow> string list option \<Rightarrow> (demo_cache, pyval) task" where
  "demo_fetch word number licenses s =
     (if word = ''ghostword'' then (PyFalse, s)
      else (PyTrue,
            (fst s @ map (\<lambda>i. (word, ''samples/'' @ word @ ''/'' @ str_nat i @ ''.wav''))
                       [0..<nat number],
             snd s)))"

definition demo_speak ::
  "string \<Rightarrow> string \<Rightarrow> string \<Rightarrow> pyfloat \<Rightarrow> (demo_cache, pyval) task" where
  "demo_speak word language gender pitch s =
     (let f = ''speech_samples/'' @ word
                @ (if float_nonzero pitch then ''_p'' @ format_plus_1f pitch else []) @ ''.wav''
      in (PyTrue, (fst s, if (word, f) \<in> set (snd s) then snd s else snd s @ [(word, f)])))"

definition demo_list :: "list_args \<Rightarrow> demo_cache \<Rightarrow> Sound list \<times> demo_cache" where
  "demo_list a s =
     (map (\<lambda>e. demo_sound (snd e))
        (filter (\<lambda>e. fst e = la_word a)
           (if la_soundtype a = Some ''tts'' then snd s else fst s)),
      s)"

definition demo_dj :: "demo_cache Dj" where
  "demo_dj = \<lparr>parse_definition = demo_parse, fetch = demo_fetch, speak = demo_speak,
              list_sounds = demo_list\<rparr>"

definition demo_platform :: platform where
  "demo_platform =
     \<lparr>py_float = (\<lambda>t. if t = ''1.0'' then Some (Finite False 1 0)
                      else if t = ''1.5'' then Some (Finite False 3 (- 1))
                      else if t = ''-2.0'' then Some (Finite True 2 0)
                      else if t = ''nan'' then Some NaN
                      else None),
      py_str_float = (\<lambda>x. if x = Finite False 3 (- 1) then ''1.5'' else ''?''),
      gettempdir = ''/tmp''\<rparr>"

definition demo_request :: "(string \<times> string) list \<Rightarrow> request" where
  "demo_request a = \<lparr>args = a, hostname = ''shabda.ndre.gr'', port = None, script_name = None\<rparr>"

text \<open>A cache that holds the neutral reading of \<^verbatim>\<open>fox\<close> and the one raised by
  \<open>1.0\<close>.\<close>

definition fox_cache :: demo_cache where
  "fox_cache = ([], [(''fox'', ''speech_samples/fox.wav''),
                     (''fox'', ''speech_samples/fox_p+1.0.wav'')])"

section \<open>Properties of the helpers\<close>

subsection \<open>The substring test\<close>

lemma startswith_iff: "startswith s sub \<longleftrightarrow> (\<exists>ss. s = sub @ ss)"
  by (induction s sub rule: startswith.induct) auto

lemma str_in_iff: "str_in sub s \<longleftrightarrow> (\<exists>ps ss. s = ps @ sub @ ss)"
proof (induction s)
  case Nil
  then show ?case by auto
next
  case (Cons c s)
  show ?case
  proof
    assume "str_in sub (c # s)"
    then consider "startswith (c # s) sub" | "str_in sub s" by auto
    then show "\<exists>ps ss. c # s = ps @ sub @ ss"
    proof cases
      case 1
      then obtain ss where "c # s = sub @ ss" by (auto simp: startswith_iff)
      then have "c # s = [] @ sub @ ss" by simp
      then show ?thesis by blast
    next
      case 2
      then obtain ps ss where "s = ps @ sub @ ss" using Cons.IH by blast
      then have "c # s = (c # ps) @ sub @ ss" by simp
      then show ?thesis by blast
    qed
  next
    assume "\<exists>ps ss. c # s = ps @ sub @ ss"
    then obtain ps ss where eq: "c # s = ps @ sub @ ss" by blast
    show "str_in sub (c # s)"
    proof (cases ps)
      case Nil
      with eq have "startswith (c # s) sub" by (auto simp: startswith_iff)
      then show ?thesis by simp
    next
      case (Cons p ps')
      with eq have "s = ps' @ sub @ ss" by simp
      then have "str_in sub s" using Cons.IH by blast
      then show ?thesis by simp
    qed
  qed
qed

lemma replace_spaces_idem: "replace_spaces (replace_spaces d) = replace_spaces d"
  by (simp add: replace_spaces_def)

subsection \<open>The status and the parse errors\<close>

lemma status_loop_eq:
  "status_loop g results = (if PyTrue \<in> set results then ''ok'' else g)"
  by (induction results arbitrary: g) auto

lemma pack_parse_error:
  "parse_definition dj defn = Inl ex \<Longrightarrow> pack dj req cs defn s = (Inl (BadRequest (ValueErrorObject ex)), s)"
  by (simp add: pack_def)

lemma speech_parse_error:
  "parse_definition dj (replace_spaces defn) = Inl ex \<Longrightarrow>
   speech py dj req cs defn s = (Inl (BadRequest (ValueErrorObject ex)), s)"
  by (simp add: speech_def)

lemma pack_json_parse_error:
  "parse_definition dj defn = Inl ex \<Longrightarrow> pack_json dj req cs defn s = (Inl (BadRequest (ValueErrorObject ex)), s)"
  by (simp add: pack_json_def pack_parse_error)

lemma speech_json_parse_error:
  "parse_definition dj (replace_spaces defn) = Inl ex \<Longrightarrow>
   speech_json py dj req cs defn s = (Inl (BadRequest (ValueErrorObject ex)), s)"
  by (simp add: speech_json_def speech_parse_error replace_spaces_idem)

lemma pack_zip_parse_error:
  "parse_definition dj defn = Inl ex \<Longrightarrow> pack_zip py dj defn s = (Inl (BadRequest (ValueErrorObject ex)), s)"
  by (simp add: pack_zip_def)

lemma speech_zip_parse_error:
  "parse_definition dj (replace_spaces defn) = Inl ex \<Longrightarrow>
   speech_zip py dj defn s = (Inl (BadRequest (ValueErrorObject ex)), s)"
  by (simp add: speech_zip_def)

lemma pack_ok:
  "parse_definition dj defn = Inr ws \<Longrightarrow>
   pack dj req cs defn s =
     (Inr (status_response
        (if PyTrue \<in> set (fst (gather cs (pack_tasks dj (arg_licenses req) ws) s))
         then ''ok'' else ''empty'') ws),
      snd (gather cs (pack_tasks dj (arg_licenses req) ws) s))"
  by (simp add: pack_def Let_def status_loop_eq)

lemma speech_ok:
  "parse_definition dj (replace_spaces defn) = Inr ws \<Longrightarrow>
   speech py dj req cs defn s =
     (Inr (status_response
        (if PyTrue \<in> set (fst (gather cs
              (speech_tasks dj (arg_str req ''language'' ''en-GB'') (arg_str req ''gender'' ''f'')
                 (arg_pitch py req) ws) s))
         then ''ok'' else ''empty'') ws),
      snd (gather cs
              (speech_tasks dj (arg_str req ''language'' ''en-GB'') (arg_str req ''gender'' ''f'')
                 (arg_pitch py req) ws) s))"
  by (simp add: speech_def Let_def status_loop_eq)

subsection \<open>Gathering tasks\<close>

lemma run_pending_Nil: "run_pending cs [] s = ([], s)"
  by (simp add: run_pending.simps)

lemma run_pending_step:
  assumes "pending \<noteq> []"
  shows "\<exists>k < length pending.
     run_pending cs pending s =
       ((fst (pending ! k), fst (snd (pending ! k) s))
          # fst (run_pending (tl cs) (take k pending @ drop (Suc k) pending)
                   (snd (snd (pending ! k) s))),
        snd (run_pending (tl cs) (take k pending @ drop (Suc k) pending)
               (snd (snd (pending ! k) s))))"
proof -
  define k where "k = (case cs of [] \<Rightarrow> 0 | c # _ \<Rightarrow> c mod length pending)"
  from assms have "0 < length pending" by simp
  then have "k < length pending" unfolding k_def by (cases cs) simp_all
  moreover have "run_pending cs pending s =
       ((fst (pending ! k), fst (snd (pending ! k) s))
          # fst (run_pending (tl cs) (take k pending @ drop (Suc k) pending)
                   (snd (snd (pending ! k) s))),
        snd (run_pending (tl cs) (take k pending @ drop (Suc k) pending)
               (snd (snd (pending ! k) s))))"
    using assms by (subst run_pending.simps) (simp add: Let_def k_def)
  ultimately show ?thesis by blast
qed

lemma run_pending_results:
  "distinct (map fst pending) \<Longrightarrow>
   distinct (map fst (fst (run_pending cs pending s)))
   \<and> fst ` set (fst (run_pending cs pending s)) = fst ` set pending
   \<and> (\<forall>ir \<in> set (fst (run_pending cs pending s)).
        \<exists>t s'. (fst ir, t) \<in> set pending \<and> snd ir = fst (t s'))"
proof (induction "length pending" arbitrary: pending cs s)
  case 0
  then show ?case by (simp add: run_pending_Nil)
next
  case (Suc n)
  then have ne: "pending \<noteq> []" by auto
  from run_pending_step [OF ne, of cs s] obtain k where k: "k < length pending"
    and eq: "run_pending cs pending s =
       ((fst (pending ! k), fst (snd (pending ! k) s))
          # fst (run_pending (tl cs) (take k pending @ drop (Suc k) pending)
                   (snd (snd (pending ! k) s))),
        snd (run_pending (tl cs) (take k pending @ drop (Suc k) pending)
               (snd (snd (pending ! k) s))))"
    by blast
  define A where "A = take k pending"
  define B where "B = drop (Suc k) pending"
  define x where "x = pending ! k"
  have split: "pending = A @ x # B"
    unfolding x_def A_def B_def using k by (rule id_take_nth_drop)
  have len: "n = length (A @ B)"
    using Suc.hyps(2) by (simp add: split)
  have dist: "distinct (map fst (A @ B))"
    using Suc.prems by (simp add: split)
  have notin: "fst x \<notin> fst ` set (A @ B)"
    using Suc.prems by (auto simp: split)
  have sets: "set pending = insert x (set (A @ B))"
    by (auto simp: split)
  have eq': "run_pending cs pending s =
       ((fst x, fst (snd x s)) # fst (run_pending (tl cs) (A @ B) (snd (snd x s))),
        snd (run_pending (tl cs) (A @ B) (snd (snd x s))))"
    using eq by (simp only: A_def B_def x_def)
  note IH = Suc.hyps(1) [OF len dist, of "tl cs" "snd (snd x s)"]
  have 1: "distinct (map fst (fst (run_pending cs pending s)))"
    unfolding eq' using IH notin by simp
  have 2: "fst ` set (fst (run_pending cs pending s)) = fst ` set pending"
    unfolding eq' sets using IH by simp
  have 3: "\<exists>t s'. (fst ir, t) \<in> set pending \<and> snd ir = fst (t s')"
    if "ir \<in> set (fst (run_pending cs pending s))" for ir
  proof (cases "ir = (fst x, fst (snd x s))")
    case True
    have "(fst x, snd x) \<in> set pending" by (simp add: sets)
    moreover have "snd ir = fst (snd x s)" using True by simp
    moreover have "fst ir = fst x" using True by simp
    ultimately show ?thesis by metis
  next
    case False
    with that have "ir \<in> set (fst (run_pending (tl cs) (A @ B) (snd (snd x s))))"
      unfolding eq' by simp
    with IH obtain t s' where "(fst ir, t) \<in> set (A @ B)" "snd ir = fst (t s')"
      by blast
    then show ?thesis unfolding sets by blast
  qed
  from 1 2 3 show ?case by blast
qed

lemma length_run_pending: "length (fst (run_pending cs pending s)) = length pending"
proof (induction "length pending" arbitrary: pending cs s)
  case 0
  then show ?case by (simp add: run_pending_Nil)
next
  case (Suc n)
  then have ne: "pending \<noteq> []" by auto
  from run_pending_step [OF ne, of cs s] obtain k where k: "k < length pending"
    and eq: "run_pending cs pending s =
       ((fst (pending ! k), fst (snd (pending ! k) s))
          # fst (run_pending (tl cs) (take k pending @ drop (Suc k) pending)
                   (snd (snd (pending ! k) s))),
        snd (run_pending (tl cs) (take k pending @ drop (Suc k) pending)
               (snd (snd (pending ! k) s))))"
    by blast
  have "n = length (take k pending @ drop (Suc k) pending)"
    using Suc.hyps(2) k by simp
  from Suc.hyps(1) [OF this] show ?case
    unfolding eq using Suc.hyps(2) k by simp
qed

lemma length_gather: "length (fst (gather cs tasks s)) = length tasks"
  by (simp add: gather_def Let_def length_run_pending)

lemma gather_results:
  assumes i: "i < length tasks"
  shows "\<exists>s'. fst (gather cs tasks s) ! i = fst ((tasks ! i) s')"
proof -
  define pending where "pending = zip [0..<length tasks] tasks"
  define finished where "finished = fst (run_pending cs pending s)"
  have dp: "distinct (map fst pending)" by (simp add: pending_def)
  have keys: "fst ` set pending = {0..<length tasks}"
    unfolding pending_def by (simp flip: set_map)
  from run_pending_results [OF dp, of cs s]
  have d: "distinct (map fst finished)"
    and st: "fst ` set finished = {0..<length tasks}"
    and r: "\<forall>ir \<in> set finished. \<exists>t s'. (fst ir, t) \<in> set pending \<and> snd ir = fst (t s')"
    unfolding finished_def keys by blast+
  define sorted_fin where "sorted_fin = sort_key fst finished"
  have "sorted (map fst sorted_fin)" by (simp add: sorted_fin_def)
  moreover have "distinct (map fst sorted_fin)"
    unfolding sorted_fin_def using d by (simp add: distinct_map inj_on_def)
  moreover have "set (map fst sorted_fin) = set [0..<length tasks]"
    unfolding sorted_fin_def using st by simp
  ultimately have idx: "map fst sorted_fin = [0..<length tasks]"
    by (intro sorted_distinct_set_unique) simp_all
  then have len: "length sorted_fin = length tasks"
    by (metis length_map length_upt minus_nat.diff_0)
  have "fst (sorted_fin ! i) = i"
    using idx i len by (metis nth_map nth_upt add_0)
  moreover have "sorted_fin ! i \<in> set finished"
    using i len unfolding sorted_fin_def by (metis nth_mem set_sort)
  ultimately obtain t s' where "(i, t) \<in> set pending" "snd (sorted_fin ! i) = fst (t s')"
    using r by metis
  moreover from this(1) have "t = tasks ! i"
    unfolding pending_def by (auto simp: set_zip)
  moreover have "fst (gather cs tasks s) ! i = snd (sorted_fin ! i)"
    using i len by (simp add: gather_def Let_def sorted_fin_def finished_def pending_def)
  ultimately show ?thesis by auto
qed

subsection \<open>The loops of the listings\<close>

lemma speech_json_sounds_eq:
  "speech_json_sounds strudel key samples reslist n =
   pack_json_sounds False strudel key samples reslist n"
  by (induction samples arbitrary: reslist n) (auto split: sum.splits)

lemma sound_data_eq: "sound_data complete bank (int n) sound = listing_record complete bank n sound"
  by (simp add: sound_data_def listing_record_def)

lemma pack_json_words_fst:
  "fst (pack_json_words dj complete licenses strudel ws reslist s) =
   add_groups complete strudel (fst (pack_listing dj licenses ws s)) reslist"
  by (induction ws arbitrary: reslist s) (auto simp: Let_def split: sum.splits)

lemma pack_json_words_snd:
  "fst (pack_json_words dj complete licenses strudel ws reslist s) = Inr r \<Longrightarrow>
   snd (pack_json_words dj complete licenses strudel ws reslist s) =
   snd (pack_listing dj licenses ws s)"
  by (induction ws arbitrary: reslist s) (auto simp: Let_def split: sum.splits)

lemma map_fst_pack_listing: "map fst (fst (pack_listing dj licenses ws s)) = map fst ws"
  by (induction ws arbitrary: s) (auto simp: Let_def)

lemma map_fst_speech_listing: "map fst (fst (speech_listing dj gender language ws s)) = map fst ws"
  by (induction ws arbitrary: s) (auto simp: Let_def)

lemma div_pow_exact:
  fixes m k :: nat
  assumes "0 < k"
  shows "(int m = (int m div int k) * int k) \<longleftrightarrow> k dvd m"
proof -
  have "int m div int k = int (m div k)" by (simp add: zdiv_int)
  then have "(int m = (int m div int k) * int k) \<longleftrightarrow> (m = (m div k) * k)"
    by (metis of_nat_eq_iff of_nat_mult)
  also have "\<dots> \<longleftrightarrow> k dvd m"
    by (metis dvd_div_mult_self dvd_triv_right)
  finally show ?thesis .
qed

lemma float_eq_int_finite:
  assumes "float_int (Finite neg m e) = Inr i"
  shows "float_eq_int (Finite neg m e) i \<longleftrightarrow> (0 \<le> e \<or> 2 ^ nat (- e) dvd m)"
proof (cases "0 \<le> e")
  case True
  with assms show ?thesis by (auto simp: Let_def)
next
  case False
  define k :: nat where "k = 2 ^ nat (- e)"
  have k: "0 < k" by (simp add: k_def)
  have ik: "(2::int) ^ nat (- e) = int k" by (simp add: k_def)
  from assms False have i: "i = (if neg then - (int m div int k) else int m div int k)"
    by (auto simp: Let_def ik)
  have "float_eq_int (Finite neg m e) i \<longleftrightarrow> (int m = (int m div int k) * int k)"
    using False by (auto simp: Let_def ik i)
  also have "\<dots> \<longleftrightarrow> k dvd m" by (rule div_pow_exact [OF k])
  finally show ?thesis using False by (simp add: k_def)
qed

lemma pitch_int_text:
  assumes "float_int (Finite neg m e) = Inr i"
  shows "(if float_eq_int (Finite neg m e) i then str_int i else py_str_float py (Finite neg m e))
         = pitch_key_text py (Finite neg m e)"
proof (cases "0 \<le> e")
  case True
  with assms show ?thesis by (auto simp: Let_def)
next
  case False
  have "int m div 2 ^ nat (- e) = int (m div 2 ^ nat (- e))" by (simp add: zdiv_int)
  with assms False have i: "i = (if neg then - 1 else 1) * int (m div 2 ^ nat (- e))"
    by (auto simp: Let_def)
  show ?thesis
    unfolding float_eq_int_finite [OF assms] using False by (simp add: i)
qed

lemma select_pitch_zero:
  assumes "\<not> float_nonzero pitch"
  shows "select_pitch py pitch word samples =
         Inr (filter (pitch_selects pitch) samples, speech_key py pitch word)"
proof -
  have "pitch_selects pitch =
        (\<lambda>s. \<not> str_in ''_p+'' (sound_file s) \<and> \<not> str_in ''_p-'' (sound_file s))"
    using assms by (intro ext) (simp add: pitch_selects_def)
  with assms show ?thesis by (simp add: select_pitch_def speech_key_def)
qed

lemma select_pitch_ok:
  assumes "float_finite pitch"
  shows "select_pitch py pitch word samples =
         Inr (filter (pitch_selects pitch) samples, speech_key py pitch word)"
proof (cases "float_nonzero pitch")
  case False
  then show ?thesis by (rule select_pitch_zero)
next
  case True
  from assms obtain neg m e where p: "pitch = Finite neg m e" by (cases pitch) auto
  obtain i where i: "float_int (Finite neg m e) = Inr i" by (simp add: Let_def)
  have nz: "float_nonzero (Finite neg m e)" using True p by simp
  have sel: "pitch_selects (Finite neg m e) =
             (\<lambda>s. str_in (''_p'' @ format_plus_1f (Finite neg m e)) (sound_file s))"
    using nz by (intro ext) (simp only: pitch_selects_def if_True)
  show ?thesis
    unfolding p select_pitch_def speech_key_def sel
    using nz pitch_int_text [OF i, of py]
    by (simp only: i Let_def if_True sum.case)
qed

lemma select_pitch_err:
  assumes "\<not> float_finite pitch"
  shows "select_pitch py pitch word samples = Inl (if pitch = NaN then ValueError else OverflowError)"
  using assms by (cases pitch) (simp_all add: select_pitch_def)

lemma speech_json_words_fst:
  assumes "float_finite pitch"
  shows "fst (speech_json_words py dj gender language pitch strudel ws reslist s) =
   add_groups False strudel (speech_groups py pitch (fst (speech_listing dj gender language ws s))) reslist"
  using assms
  by (induction ws arbitrary: reslist s)
     (auto simp: Let_def speech_groups_def select_pitch_ok speech_json_sounds_eq split: sum.splits)

lemma speech_json_words_snd:
  assumes "float_finite pitch"
  shows "fst (speech_json_words py dj gender language pitch strudel ws reslist s) = Inr r \<Longrightarrow>
   snd (speech_json_words py dj gender language pitch strudel ws reslist s) =
   snd (speech_listing dj gender language ws s)"
  using assms
  by (induction ws arbitrary: reslist s)
     (auto simp: Let_def speech_groups_def select_pitch_ok speech_json_sounds_eq split: sum.splits)

lemma speech_json_words_err:
  assumes "\<not> float_finite pitch" "ws \<noteq> []"
  shows "fst (speech_json_words py dj gender language pitch strudel ws reslist s) =
     Inl (if pitch = NaN then ValueError else OverflowError)"
  using assms by (cases ws) (auto simp: Let_def select_pitch_err)

lemma flat_sounds:
  "pack_json_sounds complete False key samples (JList pre) (int m) =
   Inr (JList (pre @ map (\<lambda>ns. listing_record complete key (fst ns) (snd ns))
                        (enumerate m samples)))"
proof (induction samples arbitrary: pre m)
  case Nil
  show ?case by simp
next
  case (Cons sound samples)
  have "int m + 1 = int (Suc m)" by simp
  then show ?case
    using Cons.IH [of "pre @ [listing_record complete key m sound]" "Suc m"]
    by (simp add: flat_append_def sound_data_eq add.commute)
qed

lemma add_groups_flat:
  "add_groups complete False groups (JList pre) = Inr (JList (pre @ flat_records complete groups))"
proof (induction groups arbitrary: pre)
  case Nil
  show ?case by (simp add: flat_records_def)
next
  case (Cons g groups)
  show ?case
    using flat_sounds [of complete "fst g" "snd g" pre 0] Cons.IH
    by (simp add: flat_records_def)
qed

subsection \<open>The grouped listing\<close>

lemma update_absent: "map_of d k = None \<Longrightarrow> AList.update k v d = d @ [(k, v)]"
  by (induction d) (auto split: if_splits)

lemma map_of_snoc: "map_of d k = None \<Longrightarrow> map_of (d @ [(k, v)]) k = Some v"
  by (simp add: map_add_def)

lemma update_snoc: "map_of d k = None \<Longrightarrow> AList.update k v' (d @ [(k, v)]) = d @ [(k, v')]"
  by (induction d) (auto split: if_splits)

lemma strudel_append_new:
  "map_of d k = None \<Longrightarrow>
   strudel_append k sound (JObj d) = Inr (JObj (d @ [(k, JList [JStr (sound_file sound)])]))"
  by (simp add: strudel_append_def update_absent map_of_snoc update_snoc del: map_of_append)

lemma strudel_append_list:
  "map_of d k = None \<Longrightarrow>
   strudel_append k sound (JObj (d @ [(k, JList fs)])) =
   Inr (JObj (d @ [(k, JList (fs @ [JStr (sound_file sound)]))]))"
  by (simp add: strudel_append_def map_of_snoc update_snoc del: map_of_append)

lemma strudel_append_str:
  "map_of d k = Some (JStr b) \<Longrightarrow> strudel_append k sound (JObj d) = Inl AttributeError"
  by (simp add: strudel_append_def)

lemma strudel_sounds_list:
  "map_of d k = None \<Longrightarrow>
   pack_json_sounds complete True k samples (JObj (d @ [(k, JList fs)])) n =
   Inr (JObj (d @ [(k, JList (fs @ map (\<lambda>sound. JStr (sound_file sound)) samples))]))"
proof (induction samples arbitrary: fs)
  case Nil
  show ?case by simp
next
  case (Cons sound samples)
  show ?case
    using Cons.IH [OF Cons.prems, of "fs @ [JStr (sound_file sound)]"]
    by (simp add: strudel_append_list [OF Cons.prems])
qed

lemma strudel_sounds_new:
  assumes "map_of d k = None" "samples \<noteq> []"
  shows "pack_json_sounds complete True k samples (JObj d) n =
         Inr (JObj (d @ [(k, JList (map (\<lambda>sound. JStr (sound_file sound)) samples))]))"
proof -
  from assms(2) obtain sound rest where s: "samples = sound # rest" by (cases samples) auto
  show ?thesis
    unfolding s
    using strudel_sounds_list [OF assms(1), of complete rest "[JStr (sound_file sound)]" n]
    by (simp add: strudel_append_new [OF assms(1)])
qed

lemma strudel_sounds_str:
  assumes "map_of d k = Some (JStr b)" "samples \<noteq> []"
  shows "pack_json_sounds complete True k samples (JObj d) n = Inl AttributeError"
proof -
  from assms(2) obtain sound rest where s: "samples = sound # rest" by (cases samples) auto
  show ?thesis unfolding s by (simp add: strudel_append_str [OF assms(1)])
qed

lemma add_groups_strudel:
  assumes "distinct (map fst groups)"
    and "map_of d r = Some (JStr b)"
    and "\<forall>g \<in> set groups. fst g \<noteq> r \<longrightarrow> map_of d (fst g) = None"
  shows "add_groups complete True groups (JObj d) =
         (if \<exists>g \<in> set groups. fst g = r \<and> snd g \<noteq> [] then Inl AttributeError
          else Inr (JObj (d @ strudel_groups groups)))"
  using assms
proof (induction groups arbitrary: d)
  case Nil
  show ?case by (simp add: strudel_groups_def)
next
  case (Cons g groups)
  show ?case
  proof (cases "snd g = []")
    case True
    have "add_groups complete True (g # groups) (JObj d) = add_groups complete True groups (JObj d)"
      using True by simp
    moreover have "strudel_groups (g # groups) = strudel_groups groups"
      using True by (simp add: strudel_groups_def)
    moreover have "(\<exists>h \<in> set (g # groups). fst h = r \<and> snd h \<noteq> []) \<longleftrightarrow>
                   (\<exists>h \<in> set groups. fst h = r \<and> snd h \<noteq> [])"
      using True by auto
    ultimately show ?thesis
      using Cons.IH [of d] Cons.prems by simp
  next
    case False
    show ?thesis
    proof (cases "fst g = r")
      case True
      have "pack_json_sounds complete True (fst g) (snd g) (JObj d) 0 = Inl AttributeError"
        using strudel_sounds_str [of d r b "snd g"] Cons.prems(2) False True by simp
      then show ?thesis using True False by simp
    next
      case neq: False
      define entry where "entry = (fst g, JList (map (\<lambda>sound. JStr (sound_file sound)) (snd g)))"
      have none: "map_of d (fst g) = None" using Cons.prems(3) neq by simp
      have step: "pack_json_sounds complete True (fst g) (snd g) (JObj d) 0 = Inr (JObj (d @ [entry]))"
        unfolding entry_def by (rule strudel_sounds_new [OF none False])
      have d1: "distinct (map fst groups)" using Cons.prems(1) by simp
      have d2: "map_of (d @ [entry]) r = Some (JStr b)"
        using Cons.prems(2) by (simp add: map_add_def)
      have d3: "\<forall>h \<in> set groups. fst h \<noteq> r \<longrightarrow> map_of (d @ [entry]) (fst h) = None"
      proof (intro ballI impI)
        fix h assume h: "h \<in> set groups" "fst h \<noteq> r"
        then have "fst h \<in> fst ` set groups" by simp
        moreover have "fst g \<notin> fst ` set groups" using Cons.prems(1) by simp
        ultimately have "fst h \<noteq> fst g" by metis
        moreover have "map_of d (fst h) = None" using Cons.prems(3) h by simp
        ultimately show "map_of (d @ [entry]) (fst h) = None"
          by (simp add: map_add_def entry_def)
      qed
      have sg: "strudel_groups (g # groups) = entry # strudel_groups groups"
        using False by (simp add: strudel_groups_def entry_def)
      have ex: "(\<exists>h \<in> set (g # groups). fst h = r \<and> snd h \<noteq> []) \<longleftrightarrow>
                (\<exists>h \<in> set groups. fst h = r \<and> snd h \<noteq> [])"
        using neq by auto
      show ?thesis
        unfolding ex sg using Cons.IH [OF d1 d2 d3] step by simp
    qed
  qed
qed

lemma listing_strudel:
  assumes "distinct (map fst groups)"
  shows "add_groups complete True groups (JObj [(''_base'', JStr base)]) =
         (if \<exists>g \<in> set groups. fst g = ''_base'' \<and> snd g \<noteq> [] then Inl AttributeError
          else Inr (listing_json complete True base groups))"
  using add_groups_strudel [OF assms, of "[(''_base'', JStr base)]" "''_base''" base complete]
  by (simp add: listing_json_def)

lemma listing_flat:
  "add_groups complete False groups (JList []) = Inr (listing_json complete False base groups)"
  by (simp add: add_groups_flat listing_json_def)

subsection \<open>The listing routes\<close>

lemma fst_json_case:
  "fst (case p of (Inl err, s2) \<Rightarrow> (Inl err, s2) | (Inr r, s2) \<Rightarrow> (Inr (Json r), s2)) =
   (case fst p of Inl err \<Rightarrow> Inl err | Inr r \<Rightarrow> Inr (Json r))"
  by (cases p) (auto split: sum.splits)

lemma snd_json_case:
  "snd (case p of (Inl err, s2) \<Rightarrow> (Inl err, s2) | (Inr r, s2) \<Rightarrow> (Inr (Json r), s2)) = snd p"
  by (cases p) (auto split: sum.splits)

lemma pack_json_fst:
  assumes "parse_definition dj defn = Inr ws"
  shows "fst (pack_json dj req cs defn s) =
     (case add_groups (arg_bool req ''complete'') (arg_bool req ''strudel'')
             (pack_json_groups dj req cs ws s)
             (if arg_bool req ''strudel'' then JObj [(''_base'', JStr (base_url req))] else JList [])
      of Inl err \<Rightarrow> Inl err | Inr r \<Rightarrow> Inr (Json r))"
  by (simp add: pack_json_def pack_ok [OF assms] assms Let_def fst_json_case
        pack_json_words_fst pack_json_groups_def pack_state_def)

lemma pack_json_snd:
  assumes "parse_definition dj defn = Inr ws" "fst (pack_json dj req cs defn s) = Inr r"
  shows "snd (pack_json dj req cs defn s) =
         snd (pack_listing dj (arg_licenses req) ws (pack_state dj req cs ws s))"
proof -
  define r0 where "r0 = (if arg_bool req ''strudel'' then JObj [(''_base'', JStr (base_url req))] else JList [])"
  define p where "p = pack_json_words dj (arg_bool req ''complete'') (arg_licenses req)
     (arg_bool req ''strudel'') ws r0 (pack_state dj req cs ws s)"
  have eq: "pack_json dj req cs defn s =
        (case p of (Inl err, s2) \<Rightarrow> (Inl err, s2) | (Inr r, s2) \<Rightarrow> (Inr (Json r), s2))"
    by (simp add: pack_json_def pack_ok [OF assms(1)] assms(1) Let_def p_def r0_def pack_state_def)
  from assms(2) obtain r' where "fst p = Inr r'"
    unfolding eq fst_json_case by (auto split: sum.splits)
  then have "snd p = snd (pack_listing dj (arg_licenses req) ws (pack_state dj req cs ws s))"
    unfolding p_def by (rule pack_json_words_snd)
  then show ?thesis unfolding eq snd_json_case .
qed

lemma pack_json_flat:
  assumes "parse_definition dj defn = Inr ws" "\<not> arg_bool req ''strudel''"
  shows "pack_json dj req cs defn s =
     (Inr (Json (JList (flat_records (arg_bool req ''complete'') (pack_json_groups dj req cs ws s)))),
      snd (pack_listing dj (arg_licenses req) ws (pack_state dj req cs ws s)))"
proof -
  have f: "fst (pack_json dj req cs defn s) =
     Inr (Json (JList (flat_records (arg_bool req ''complete'') (pack_json_groups dj req cs ws s))))"
    using assms(2) by (simp add: pack_json_fst [OF assms(1)] add_groups_flat)
  from pack_json_snd [OF assms(1) f] f show ?thesis by (simp add: prod_eq_iff)
qed

lemma map_fst_pack_json_groups: "map fst (pack_json_groups dj req cs ws s) = map fst ws"
  by (simp add: pack_json_groups_def map_fst_pack_listing)

lemma pack_json_strudel:
  assumes "parse_definition dj defn = Inr ws" "arg_bool req ''strudel''" "distinct (map fst ws)"
  shows "fst (pack_json dj req cs defn s) =
     (if \<exists>g \<in> set (pack_json_groups dj req cs ws s). fst g = ''_base'' \<and> snd g \<noteq> []
      then Inl AttributeError
      else Inr (Json (listing_json (arg_bool req ''complete'') True (base_url req)
                        (pack_json_groups dj req cs ws s))))"
proof -
  have d: "distinct (map fst (pack_json_groups dj req cs ws s))"
    using assms(3) by (simp add: map_fst_pack_json_groups)
  show ?thesis
    using assms(2) by (simp add: pack_json_fst [OF assms(1)] listing_strudel [OF d])
qed

lemma speech_json_fst:
  assumes "parse_definition dj (replace_spaces defn) = Inr ws" "float_finite (arg_pitch py req)"
  shows "fst (speech_json py dj req cs defn s) =
     (case add_groups False (arg_bool req ''strudel'')
             (speech_json_groups py dj req cs ws s)
             (if arg_bool req ''strudel'' then JObj [(''_base'', JStr (base_url req))] else JList [])
      of Inl err \<Rightarrow> Inl err | Inr r \<Rightarrow> Inr (Json r))"
  by (simp add: speech_json_def speech_ok [OF assms(1)] speech_ok assms replace_spaces_idem
        Let_def fst_json_case
        speech_json_words_fst speech_json_groups_def speech_json_listing_def speech_state_def)

lemma speech_json_not_finite:
  assumes "parse_definition dj (replace_spaces defn) = Inr ws"
    "\<not> float_finite (arg_pitch py req)" "ws \<noteq> []"
  shows "fst (speech_json py dj req cs defn s) =
     Inl (if arg_pitch py req = NaN then ValueError else OverflowError)"
  by (simp add: speech_json_def speech_ok assms replace_spaces_idem
        Let_def fst_json_case speech_json_words_err)

lemma speech_json_flat:
  assumes "parse_definition dj (replace_spaces defn) = Inr ws" "float_finite (arg_pitch py req)"
    "\<not> arg_bool req ''strudel''"
  shows "fst (speech_json py dj req cs defn s) =
     Inr (Json (JList (flat_records False (speech_json_groups py dj req cs ws s))))"
  using assms(3) by (simp add: speech_json_fst [OF assms(1,2)] add_groups_flat)

subsection \<open>Running the engine of the examples\<close>

lemma digit_simps:
  "digit 0 = CHR ''0''" "digit 1 = CHR ''1''" "digit 2 = CHR ''2''" "digit 3 = CHR ''3''"
  "digit 4 = CHR ''4''" "digit 5 = CHR ''5''" "digit 6 = CHR ''6''" "digit 7 = CHR ''7''"
  "digit 8 = CHR ''8''" "digit 9 = CHR ''9''"
  by (simp_all add: digit_def char_of_def bit_simps)

lemma digit_Suc0: "digit (Suc 0) = CHR ''1''"
  using digit_simps(2) by simp

lemmas demo_defs =
  demo_dj_def demo_parse_def demo_fetch_def demo_speak_def demo_list_def demo_sound_def
  demo_platform_def demo_request_def fox_cache_def

lemmas run_defs =
  gather_def run_pending.simps Let_def fetch_one_def speak_one_def str_nat.simps digit_simps
  digit_Suc0 arg_licenses_def arg_str_def arg_pitch_def arg_bool_def float_zero_def
  round_tenths_def sign_char_def replace_spaces_def

subsection \<open>Reading a listing\<close>

lemma field_text_record:
  "field_text ''url'' (listing_record complete bank n sound) = [sound_file sound]"
  "field_text ''bank'' (listing_record complete bank n sound) = [bank]"
  by (simp_all add: field_text_def json_field_def listing_record_def json_text_def)

lemma listing_files_flat:
  "listing_files (JList (flat_records complete groups)) =
   concat (map (\<lambda>g. map sound_file (snd g)) groups)"
proof -
  have "concat (map (field_text ''url'')
          (map (\<lambda>ns. listing_record complete k (fst ns) (snd ns)) (enumerate m xs)))
        = map sound_file xs" for k m xs
    by (induction xs arbitrary: m) (simp_all add: field_text_record)
  then show ?thesis
    by (induction groups) (simp_all add: listing_files_def flat_records_def)
qed

lemma listing_files_strudel:
  "listing_files (JObj ((''_base'', JStr base) # strudel_groups groups)) =
   concat (map (\<lambda>g. map sound_file (snd g)) groups)"
proof -
  have a: "concat (map (json_text \<circ> (\<lambda>sound. JStr (sound_file sound))) xs) = map sound_file xs"
    for xs
    by (induction xs) (simp_all add: json_text_def)
  have "concat (map (\<lambda>kv. case snd kv of JList fs \<Rightarrow> concat (map json_text fs) | _ \<Rightarrow> [])
           (strudel_groups groups)) = concat (map (\<lambda>g. map sound_file (snd g)) groups)"
    by (induction groups) (simp_all add: strudel_groups_def a)
  then show ?thesis by (simp add: listing_files_def)
qed

lemma listing_files_json:
  "listing_files (listing_json complete strudel base groups) =
   concat (map (\<lambda>g. map sound_file (snd g)) groups)"
  by (simp add: listing_json_def listing_files_flat listing_files_strudel)

lemma listing_banks_flat:
  "listing_banks (JList (flat_records complete groups)) =
   concat (map (\<lambda>g. replicate (length (snd g)) (fst g)) groups)"
proof -
  have "concat (map (field_text ''bank'')
          (map (\<lambda>ns. listing_record complete k (fst ns) (snd ns)) (enumerate m xs)))
        = replicate (length xs) k" for k m xs
    by (induction xs arbitrary: m) (simp_all add: field_text_record)
  then show ?thesis
    by (induction groups) (simp_all add: listing_banks_def flat_records_def)
qed

lemma listing_banks_json:
  "listing_banks (listing_json complete strudel base groups) =
   (if strudel then ''_base'' # map fst (filter (\<lambda>g. snd g \<noteq> []) groups)
    else concat (map (\<lambda>g. replicate (length (snd g)) (fst g)) groups))"
  by (simp add: listing_json_def listing_banks_flat)
     (simp add: listing_banks_def strudel_groups_def comp_def)

lemma json_field_base:
  "json_field ''_base'' (listing_json complete True base groups) = Some (JStr base)"
  by (simp add: listing_json_def json_field_def)

subsection \<open>A listing that is returned\<close>

lemma pack_json_success:
  assumes "parse_definition dj defn = Inr ws" and "distinct (map fst ws)"
    and "fst (pack_json dj req cs defn s) = Inr (Json j)"
  shows "j = listing_json (arg_bool req ''complete'') (arg_bool req ''strudel'') (base_url req)
               (pack_json_groups dj req cs ws s)"
proof (cases "arg_bool req ''strudel''")
  case True
  from assms(3) show ?thesis
    unfolding pack_json_strudel [OF assms(1) True assms(2)] using True
    by (simp split: if_splits)
next
  case False
  from assms(3) show ?thesis
    unfolding pack_json_flat [OF assms(1) False] using False
    by (simp add: listing_json_def)
qed

lemma speech_key_inj: "speech_key py pitch v = speech_key py pitch w \<Longrightarrow> v = w"
  by (simp add: speech_key_def split: if_splits)

lemma map_fst_speech_json_groups:
  "map fst (speech_json_groups py dj req cs ws s) =
   map (speech_key py (arg_pitch py req)) (map fst ws)"
proof -
  have "map fst (speech_groups py pitch listing) = map (speech_key py pitch) (map fst listing)"
    for pitch listing
    by (simp add: speech_groups_def comp_def)
  then show ?thesis
    by (simp only: speech_json_groups_def speech_json_listing_def map_fst_speech_listing)
qed

lemma distinct_speech_json_groups:
  assumes "distinct (map fst ws)"
  shows "distinct (map fst (speech_json_groups py dj req cs ws s))"
  unfolding map_fst_speech_json_groups
  using assms by (simp add: distinct_map inj_on_def speech_key_inj)

lemma speech_json_strudel:
  assumes "parse_definition dj (replace_spaces defn) = Inr ws" "float_finite (arg_pitch py req)"
    "arg_bool req ''strudel''" "distinct (map fst ws)"
  shows "fst (speech_json py dj req cs defn s) =
     (if \<exists>g \<in> set (speech_json_groups py dj req cs ws s). fst g = ''_base'' \<and> snd g \<noteq> []
      then Inl AttributeError
      else Inr (Json (listing_json False True (base_url req)
                        (speech_json_groups py dj req cs ws s))))"
  using assms(3)
  by (simp add: speech_json_fst [OF assms(1,2)]
        listing_strudel [OF distinct_speech_json_groups [OF assms(4)]])

lemma speech_json_no_words:
  assumes "parse_definition dj (replace_spaces defn) = Inr []"
  shows "fst (speech_json py dj req cs defn s) =
         Inr (Json (listing_json False (arg_bool req ''strudel'') (base_url req) []))"
  by (simp add: speech_json_def speech_ok assms replace_spaces_idem Let_def
        listing_json_def strudel_groups_def flat_records_def)

lemma speech_json_success:
  assumes "parse_definition dj (replace_spaces defn) = Inr ws" and "distinct (map fst ws)"
    and "fst (speech_json py dj req cs defn s) = Inr (Json j)"
  shows "j = listing_json False (arg_bool req ''strudel'') (base_url req)
               (speech_json_groups py dj req cs ws s)"
    and "ws = [] \<or> float_finite (arg_pitch py req)"
proof -
  show fin: "ws = [] \<or> float_finite (arg_pitch py req)"
  proof (rule ccontr)
    assume "\<not> (ws = [] \<or> float_finite (arg_pitch py req))"
    then have "fst (speech_json py dj req cs defn s) =
               Inl (if arg_pitch py req = NaN then ValueError else OverflowError)"
      using speech_json_not_finite [OF assms(1)] by simp
    with assms(3) show False by simp
  qed
  show "j = listing_json False (arg_bool req ''strudel'') (base_url req)
               (speech_json_groups py dj req cs ws s)"
  proof (cases "float_finite (arg_pitch py req)")
    case fin: True
    show ?thesis
    proof (cases "arg_bool req ''strudel''")
      case True
      from assms(3) show ?thesis
        unfolding speech_json_strudel [OF assms(1) fin True assms(2)] using True
        by (simp split: if_splits)
    next
      case False
      from assms(3) show ?thesis
        unfolding speech_json_flat [OF assms(1) fin False] using False
        by (simp add: listing_json_def)
    qed
  next
    case False
    with fin have e: "ws = []" by simp
    have "speech_json_groups py dj req cs [] s = []"
      by (simp add: speech_json_groups_def speech_groups_def speech_json_listing_def)
    with assms(3) show ?thesis
      unfolding e speech_json_no_words [OF assms(1) [unfolded e]] by simp
  qed
qed

subsection \<open>The text of a pitch\<close>

lemma is_digit_digit: "d < 10 \<Longrightarrow> is_digit (digit d)"
proof -
  assume "d < 10"
  then have "d \<in> {0, 1, 2, 3, 4, 5, 6, 7, 8, 9}" by auto
  then show ?thesis
    by (auto simp: is_digit_def digit_simps digit_Suc0)
qed

lemma str_nat_digits: "str_nat n \<noteq> [] \<and> (\<forall>c \<in> set (str_nat n). is_digit c)"
proof (induction n rule: str_nat.induct)
  case (1 n)
  show ?case
  proof (cases "n < 10")
    case True
    then show ?thesis by (subst (1 2) str_nat.simps) (simp add: is_digit_digit)
  next
    case False
    have "is_digit (digit (n mod 10))" by (rule is_digit_digit) simp
    with 1 False show ?thesis by (subst (1 2) str_nat.simps) simp
  qed
qed

lemma format_plus_1f_shape:
  assumes "float_finite pitch"
  shows "\<exists>sg ds d. format_plus_1f pitch = sg # ds @ [CHR ''.'', d]
           \<and> (sg = CHR ''+'' \<or> sg = CHR ''-'') \<and> ds \<noteq> [] \<and> (\<forall>c \<in> set ds. is_digit c)
           \<and> is_digit d"
proof -
  from assms obtain neg m e where p: "pitch = Finite neg m e" by (cases pitch) auto
  define t where "t = round_tenths m e"
  have "format_plus_1f pitch = sign_char neg # str_nat (t div 10) @ [CHR ''.'', digit (t mod 10)]"
    by (simp add: p t_def Let_def)
  moreover have "sign_char neg = CHR ''+'' \<or> sign_char neg = CHR ''-''"
    by (simp add: sign_char_def)
  moreover have "is_digit (digit (t mod 10))" by (rule is_digit_digit) simp
  ultimately show ?thesis using str_nat_digits [of "t div 10"] by blast
qed

text \<open>The tenths that the format prints are the nearest ones: twice the distance of
  \<open>10 \<cdot> m \<cdot> 2\<^sup>e\<close> from them is at most one.\<close>

lemma round_tenths_nearest:
  assumes "e < 0"
  shows "2 * \<bar>int (m * 10) - int (round_tenths m e) * 2 ^ nat (- e)\<bar> \<le> 2 ^ nat (- e)"
proof -
  define d :: nat where "d = 2 ^ nat (- e)"
  define q where "q = (m * 10) div d"
  define r where "r = (m * 10) mod d"
  have d: "0 < d" by (simp add: d_def)
  have n: "m * 10 = q * d + r" by (simp add: q_def r_def)
  have r: "r < d" using d by (simp add: r_def)
  have t: "round_tenths m e = (if d < 2 * r \<or> (d = 2 * r \<and> odd q) then q + 1 else q)"
    using assms by (simp add: round_tenths_def Let_def d_def q_def r_def)
  have id: "(2::int) ^ nat (- e) = int d" by (simp add: d_def)
  show ?thesis
  proof (cases "d < 2 * r \<or> (d = 2 * r \<and> odd q)")
    case True
    then have "round_tenths m e = q + 1" by (simp add: t)
    then have "int (m * 10) - int (round_tenths m e) * int d = int r - int d"
      by (simp add: n algebra_simps)
    with True r show ?thesis unfolding id by auto
  next
    case False
    then have "round_tenths m e = q" by (simp add: t)
    then have "int (m * 10) - int (round_tenths m e) * int d = int r"
      by (simp add: n algebra_simps)
    with False r show ?thesis unfolding id by auto
  qed
qed

lemma round_tenths_integer:
  "0 \<le> e \<Longrightarrow> round_tenths m e = 10 * (m * 2 ^ nat e)"
  by (simp add: round_tenths_def)

section \<open>Properties of the routes\<close>

subsection \<open>The text that jsonify writes\<close>

lemma map_fst_insort_key: "map f (insort_key f x xs) = insort (f x) (map f xs)"
  by (induction xs) simp_all

lemma map_fst_sort_key: "map f (sort_key f xs) = sort (map f xs)"
  by (induction xs) (simp_all add: map_fst_insort_key)

lemma map_of_sort_key:
  assumes "distinct (map fst d)"
  shows "map_of (sort_key fst d) = map_of d"
proof -
  have "distinct (map fst (sort_key fst d))"
    using assms by (simp add: map_fst_sort_key)
  moreover have "set (sort_key fst d) = set d" by simp
  ultimately show ?thesis using assms by (simp add: map_of_inject_set)
qed

lemma json_field_jsonify:
  assumes "distinct (map fst d)"
  shows "json_field key (jsonify (JObj d)) = map_option jsonify (map_of d key)"
proof -
  have m: "map fst (map (map_prod id jsonify) d) = map fst d" by (simp add: comp_def)
  have "map_of (sort_key fst (map (map_prod id jsonify) d)) key
        = map_of (map (map_prod id jsonify) d) key"
    using assms by (simp add: map_of_sort_key m)
  also have "\<dots> = map_option jsonify (map_of d key)"
    by (induction d) auto
  finally show ?thesis by (simp add: json_field_def)
qed

lemma keys_jsonify: "listing_banks (jsonify (JObj d)) = sort (map fst d)"
  by (simp add: listing_banks_def map_fst_sort_key comp_def)

subsection \<open>The response to a route that returns or raises\<close>

lemma respond_json:
  "respond (Inr (Json v)) =
     \<lparr>resp_status = 200, resp_content_type = ''application/json'', resp_data = Json (jsonify v)\<rparr>"
  by (simp add: respond_def)

lemma server_error_response_eq:
  "server_error_response =
     \<lparr>resp_status = 500, resp_content_type = ''application/json'',
      resp_data = Json (JObj [(''code'', JInt 500), (''name'', JStr ''Internal Server Error''),
        (''description'', JStr ''The server encountered an internal error and was unable to complete your request. Either the server is overloaded or there is an error in the application.'')])\<rparr>"
  by (simp add: server_error_response_def handle_exception_def internal_server_error_def)

lemma handle_exception_value_error:
  "handle_exception \<lparr>exc_code = c, exc_name = n, exc_description = ValueErrorObject m\<rparr>
   = Inl TypeError"
  by (simp add: handle_exception_def)

lemma respond_bad_request_value_error:
  "respond (Inl (BadRequest (ValueErrorObject m))) = server_error_response"
  by (simp add: respond_def handle_exception_def)

lemma respond_bad_request_text:
  "resp_status (respond (Inl (BadRequest (Text t)))) = 400"
  by (simp add: respond_def handle_exception_def)

subsection \<open>The status of a request\<close>

lemma status_field:
  "response_field ''status'' (respond (Inr (status_response g ws))) = Some (JStr g)"
  by (simp add: status_response_def respond_json response_field_def json_field_def)

text \<open>
  C3. The response of \<^verbatim>\<open>pack\<close> and of \<^verbatim>\<open>speech\<close> to a definition that parses
  has the HTTP status \<open>200\<close>, and its field \<^verbatim>\<open>status\<close> holds \<^verbatim>\<open>"ok"\<close> if one of
  the gathered tasks returned \<^verbatim>\<open>True\<close> and \<^verbatim>\<open>"empty"\<close> otherwise: one word that
  succeeds is enough, whatever the other words do.
\<close>

theorem status_ok_iff_task_true:
  assumes "parse_definition dj defn = Inr ws"
    and "parse_definition dj (replace_spaces sdefn) = Inr sws"
  shows "resp_status (respond (fst (pack dj req cs defn s))) = 200
       \<and> response_field ''status'' (respond (fst (pack dj req cs defn s))) =
           Some (JStr (if PyTrue \<in> set (fst (gather cs (pack_tasks dj (arg_licenses req) ws) s))
                       then ''ok'' else ''empty''))
       \<and> resp_status (respond (fst (speech py dj req cs sdefn s))) = 200
       \<and> response_field ''status'' (respond (fst (speech py dj req cs sdefn s))) =
           Some (JStr (if PyTrue \<in> set (fst (gather cs
                        (speech_tasks dj (arg_str req ''language'' ''en-GB'')
                           (arg_str req ''gender'' ''f'') (arg_pitch py req) sws) s))
                       then ''ok'' else ''empty''))"
proof -
  have a: "resp_status (respond (Inr (status_response g vs))) = 200" for g vs
    by (simp add: status_response_def respond_json)
  show ?thesis
    by (simp only: pack_ok [OF assms(1)] speech_ok [OF assms(2)] fst_conv a status_field
          simp_thms)
qed

theorem status_ok_iff_task_true_witness:
  "response_field ''status''
     (respond (fst (pack demo_dj (demo_request []) [1] ''dog,ghostword'' ([], []))))
     = Some (JStr ''ok'')
   \<and> response_field ''status''
     (respond (fst (speech demo_platform demo_dj (demo_request []) [] ''fox'' fox_cache)))
     = Some (JStr ''ok'')"
proof -
  have h1: "parse_definition demo_dj ''dog,ghostword'' = Inr [(''dog'', None), (''ghostword'', None)]"
    by (simp add: demo_defs)
  have h2: "parse_definition demo_dj (replace_spaces ''fox'') = Inr [(''fox'', None)]"
    by (simp add: demo_defs replace_spaces_def)
  have g1: "fst (gather [1] (pack_tasks demo_dj (arg_licenses (demo_request []))
                     [(''dog'', None), (''ghostword'', None)]) ([], [])) = [PyTrue, PyFalse]"
    by (simp add: demo_defs run_defs)
  have g2: "fst (gather [] (speech_tasks demo_dj (arg_str (demo_request []) ''language'' ''en-GB'')
                     (arg_str (demo_request []) ''gender'' ''f'')
                     (arg_pitch demo_platform (demo_request [])) [(''fox'', None)]) fox_cache)
            = [PyTrue]"
    by (simp add: demo_defs run_defs)
  from status_ok_iff_task_true [OF h1 h2, where req = "demo_request []" and cs = "[1]"
      and s = "([], [])" and py = demo_platform]
  have a: "response_field ''status''
     (respond (fst (pack demo_dj (demo_request []) [1] ''dog,ghostword'' ([], []))))
     = Some (JStr ''ok'')"
    unfolding g1 by simp
  from status_ok_iff_task_true [OF h1 h2, where req = "demo_request []" and cs = "[]"
      and s = fox_cache and py = demo_platform]
  have b: "response_field ''status''
     (respond (fst (speech demo_platform demo_dj (demo_request []) [] ''fox'' fox_cache)))
     = Some (JStr ''ok'')"
    unfolding g2 by simp
  from a b show ?thesis by simp
qed

text \<open>The whole response when one word of two succeeds, and when the only word
  fails.\<close>

lemma status_examples:
  "fst (pack demo_dj (demo_request []) [1] ''dog,ghostword'' ([], [])) =
     Inr (Json (JObj [(''status'', JStr ''ok''), (''definition'', JStr ''dog,ghostword'')]))"
  "fst (pack demo_dj (demo_request []) [] ''ghostword'' ([], [])) =
     Inr (Json (JObj [(''status'', JStr ''empty''), (''definition'', JStr ''ghostword'')]))"
  by (simp_all add: pack_def status_response_def clean_definition_def clean_segment_def
        demo_defs run_defs)

subsection \<open>A malformed definition\<close>

text \<open>
  When the parser raises ValueError, every route that parses a definition raises
  BadRequest with that ValueError as its description and leaves the state of the engine
  as it was: no task was run and no sample was listed. The speech routes parse the
  definition with the spaces replaced.
\<close>

lemma parse_error_raises_bad_request:
  assumes "parse_definition dj defn = Inl ex"
    and "parse_definition dj (replace_spaces sdefn) = Inl sex"
  shows "pack dj req cs defn s = (Inl (BadRequest (ValueErrorObject ex)), s)
       \<and> pack_json dj req cs defn s = (Inl (BadRequest (ValueErrorObject ex)), s)
       \<and> pack_zip py dj defn s = (Inl (BadRequest (ValueErrorObject ex)), s)
       \<and> speech py dj req cs sdefn s = (Inl (BadRequest (ValueErrorObject sex)), s)
       \<and> speech_json py dj req cs sdefn s = (Inl (BadRequest (ValueErrorObject sex)), s)
       \<and> speech_zip py dj sdefn s = (Inl (BadRequest (ValueErrorObject sex)), s)"
  using assms
  by (simp add: pack_parse_error pack_json_parse_error pack_zip_parse_error
        speech_parse_error speech_json_parse_error speech_zip_parse_error)

text \<open>The response to such a request is not a client error: the handler cannot write
  the description and the request ends as an internal server error.\<close>

lemma parse_error_response:
  assumes "parse_definition dj defn = Inl ex"
  shows "resp_status (respond (fst (pack dj req cs defn s))) = 500"
  by (simp add: pack_parse_error [OF assms] respond_bad_request_value_error
        server_error_response_eq)

text \<open>
  C6. The definition \<^verbatim>\<open>a:0\<close> is malformed. \<^verbatim>\<open>pack\<close> raises BadRequest before any
  task is run, with the ValueError of the parser as the description of the exception;
  \<^verbatim>\<open>handle_exception\<close> then raises TypeError on \<^verbatim>\<open>json.dumps\<close>, and the response
  has the status \<open>500\<close>, not \<open>400\<close>.
\<close>

theorem malformed_definition_server_error:
  "pack demo_dj (demo_request []) [] ''a:0'' ([], []) =
     (Inl (BadRequest (ValueErrorObject ''Wrong definition'')), ([], []))
   \<and> handle_exception \<lparr>exc_code = 400, exc_name = ''Bad Request'',
                         exc_description = ValueErrorObject ''Wrong definition''\<rparr>
     = Inl TypeError
   \<and> resp_status (respond (fst (pack demo_dj (demo_request []) [] ''a:0'' ([], [])))) = 500"
proof -
  have h: "parse_definition demo_dj ''a:0'' = Inl ''Wrong definition''"
    by (simp add: demo_defs)
  show ?thesis
    by (simp add: pack_parse_error [OF h] handle_exception_value_error
          respond_bad_request_value_error server_error_response_eq)
qed

subsection \<open>Where the parser is consulted\<close>

lemma pack_tasks_map:
  "pack_tasks dj licenses ws =
   map (\<lambda>wn. fetch dj (fst wn) (case snd wn of None \<Rightarrow> 1 | Some n \<Rightarrow> n) licenses) ws"
  by (induction ws) (auto simp: fetch_one_def)















subsection \<open>The count that is left out\<close>

text \<open>
  C8. \<^verbatim>\<open>pack\<close> gathers one fetch for each word of the parsed definition, and the
  fetch of a word whose count the parser returned as \<^verbatim>\<open>None\<close> is called with the
  count \<open>1\<close>.
\<close>

theorem pack_absent_count_is_one:
  assumes "parse_definition dj defn = Inr ws" and "i < length ws" and "ws ! i = (word, None)"
  shows "pack dj req cs defn s =
           (Inr (status_response
                   (status_loop ''empty'' (fst (gather cs (pack_tasks dj (arg_licenses req) ws) s)))
                   ws),
            snd (gather cs (pack_tasks dj (arg_licenses req) ws) s))
       \<and> length (pack_tasks dj (arg_licenses req) ws) = length ws
       \<and> pack_tasks dj (arg_licenses req) ws ! i = fetch dj word 1 (arg_licenses req)"
  using assms by (simp add: pack_def Let_def pack_tasks_map)

theorem pack_absent_count_is_one_witness:
  "pack_tasks demo_dj None [(''dog'', Some 2), (''cat'', None)] ! 1 = demo_fetch ''cat'' 1 None
   \<and> snd (pack demo_dj (demo_request []) [1] ''dog:2,cat'' ([], [])) =
       ([(''cat'', ''samples/cat/0.wav''), (''dog'', ''samples/dog/0.wav''),
         (''dog'', ''samples/dog/1.wav'')], [])"
proof -
  have h: "parse_definition demo_dj ''dog:2,cat'' = Inr [(''dog'', Some 2), (''cat'', None)]"
    by (simp add: demo_defs)
  have i: "(1::nat) < length [(''dog'', Some (2::int)), (''cat'', None)]" by simp
  have n: "[(''dog'', Some (2::int)), (''cat'', None)] ! 1 = (''cat'', None)" by simp
  have l: "arg_licenses (demo_request []) = None" by (simp add: demo_defs arg_licenses_def)
  have f: "fetch demo_dj = demo_fetch" by (simp add: demo_defs)
  note t = pack_absent_count_is_one [OF h i n, where req = "demo_request []" and cs = "[1]"
      and s = "([], [])", unfolded l f]
  from t have a: "pack_tasks demo_dj None [(''dog'', Some 2), (''cat'', None)] ! 1
                  = demo_fetch ''cat'' 1 None"
    by blast
  from t have "snd (pack demo_dj (demo_request []) [1] ''dog:2,cat'' ([], [])) =
     snd (gather [1] (pack_tasks demo_dj None [(''dog'', Some 2), (''cat'', None)]) ([], []))"
    by simp
  also have "\<dots> = ([(''cat'', ''samples/cat/0.wav''), (''dog'', ''samples/dog/0.wav''),
         (''dog'', ''samples/dog/1.wav'')], [])"
    by (simp add: demo_defs run_defs upt_rec)
  finally show ?thesis using a by simp
qed

subsection \<open>Spaces in the definition\<close>



text \<open>The routes on a definition with a space: the speech route parses
  \<^verbatim>\<open>red_fox\<close>, the plain route hands \<^verbatim>\<open>red fox\<close> to the parser, which rejects
  it.\<close>

lemma spaces_example:
  "fst (speech demo_platform demo_dj (demo_request []) [] ''red fox'' ([], [])) =
     Inr (status_response ''ok'' [(''red_fox'', None)])"
  "fst (pack demo_dj (demo_request []) [] ''red fox'' ([], [])) =
     Inl (BadRequest (ValueErrorObject ''Wrong definition''))"
  by (simp_all add: speech_def pack_def demo_defs run_defs status_response_def)

subsection \<open>The grouped listing of a definition without the reserved word\<close>

text \<open>
  With the \<^verbatim>\<open>strudel\<close> flag and a definition whose words are distinct and none of
  which is \<^verbatim>\<open>_base\<close>, \<^verbatim>\<open>pack_json\<close> returns the mapping with \<^verbatim>\<open>_base\<close> and one
  key for each word that has a sample.
\<close>

lemma grouped_listing:
  assumes "parse_definition dj defn = Inr ws" and "arg_bool req ''strudel''"
    and "distinct (map fst ws)" and "''_base'' \<notin> set (map fst ws)"
  shows "fst (pack_json dj req cs defn s) =
     Inr (Json (JObj ((''_base'', JStr (base_url req))
                       # strudel_groups (pack_json_groups dj req cs ws s))))"
proof -
  have "\<not> (\<exists>g \<in> set (pack_json_groups dj req cs ws s). fst g = ''_base'' \<and> snd g \<noteq> [])"
  proof
    assume "\<exists>g \<in> set (pack_json_groups dj req cs ws s). fst g = ''_base'' \<and> snd g \<noteq> []"
    then have "''_base'' \<in> set (map fst (pack_json_groups dj req cs ws s))" by force
    with assms(4) show False by (simp only: map_fst_pack_json_groups)
  qed
  then show ?thesis
    by (simp add: pack_json_strudel [OF assms(1,2,3)] listing_json_def)
qed

subsection \<open>When a listing is returned\<close>

lemma pack_json_returns:
  assumes "parse_definition dj defn = Inr ws" and "distinct (map fst ws)"
    and "\<not> arg_bool req ''strudel'' \<or> ''_base'' \<notin> set (map fst ws)"
  shows "\<exists>j. fst (pack_json dj req cs defn s) = Inr (Json j)"
proof (cases "arg_bool req ''strudel''")
  case True
  with assms(3) have "''_base'' \<notin> set (map fst ws)" by simp
  from grouped_listing [OF assms(1) True assms(2) this] show ?thesis by simp
next
  case False
  from pack_json_flat [OF assms(1) False] show ?thesis by simp
qed

lemma speech_key_not_base:
  assumes "float_nonzero pitch"
  shows "speech_key py pitch w \<noteq> ''_base''"
proof
  assume eq: "speech_key py pitch w = ''_base''"
  have "CHR ''p'' \<in> set (speech_key py pitch w)"
    using assms by (simp add: speech_key_def)
  then have "CHR ''p'' \<in> set ''_base''" by (simp only: eq)
  then show False by simp
qed

lemma speech_json_returns:
  assumes "parse_definition dj (replace_spaces defn) = Inr ws" and "distinct (map fst ws)"
    and "float_finite (arg_pitch py req)"
    and "\<not> arg_bool req ''strudel'' \<or> float_nonzero (arg_pitch py req)
         \<or> ''_base'' \<notin> set (map fst ws)"
  shows "\<exists>j. fst (speech_json py dj req cs defn s) = Inr (Json j)"
proof (cases "arg_bool req ''strudel''")
  case True
  have "''_base'' \<notin> set (map fst (speech_json_groups py dj req cs ws s))"
  proof (cases "float_nonzero (arg_pitch py req)")
    case nz: True
    show ?thesis
      unfolding map_fst_speech_json_groups
    proof
      assume "''_base'' \<in> set (map (speech_key py (arg_pitch py req)) (map fst ws))"
      then obtain w where "speech_key py (arg_pitch py req) w = ''_base''" by auto
      with speech_key_not_base [OF nz, of py w] show False by simp
    qed
  next
    case False
    with assms(4) True have "''_base'' \<notin> set (map fst ws)" by simp
    moreover have "speech_key py (arg_pitch py req) = (\<lambda>w. w)"
      using False by (intro ext) (simp add: speech_key_def)
    ultimately show ?thesis
      unfolding map_fst_speech_json_groups by simp
  qed
  then have "\<not> (\<exists>g \<in> set (speech_json_groups py dj req cs ws s). fst g = ''_base'' \<and> snd g \<noteq> [])"
    by force
  then show ?thesis
    by (simp add: speech_json_strudel [OF assms(1,3) True assms(2)])
next
  case False
  from speech_json_flat [OF assms(1,3) False] show ?thesis by simp
qed

lemma pitch_selects_eq:
  "pitch_selects pitch =
   (\<lambda>sound. if float_nonzero pitch
            then str_in (''_p'' @ format_plus_1f pitch) (sound_file sound)
            else \<not> str_in ''_p+'' (sound_file sound) \<and> \<not> str_in ''_p-'' (sound_file sound))"
  by (rule ext) (simp add: pitch_selects_def)

subsection \<open>Runs of the listing routes\<close>

lemma demo_parse_dog_cat:
  "parse_definition demo_dj ''dog:2,cat'' = Inr [(''dog'', Some 2), (''cat'', None)]"
  by (simp add: demo_defs)

lemma demo_groups_dog_cat:
  "pack_json_groups demo_dj (demo_request a) [1] [(''dog'', Some 2), (''cat'', None)] ([], []) =
     [(''dog'', [demo_sound ''samples/dog/0.wav'', demo_sound ''samples/dog/1.wav'']),
      (''cat'', [demo_sound ''samples/cat/0.wav''])]"
  by (simp add: pack_json_groups_def pack_state_def demo_dj_def demo_fetch_def demo_list_def
        demo_request_def run_defs upt_rec)

lemma demo_parse_fox: "parse_definition demo_dj (replace_spaces ''fox'') = Inr [(''fox'', None)]"
  by (simp add: demo_defs replace_spaces_def)

lemma demo_pitch_one: "arg_pitch demo_platform (demo_request [(''pitch'', ''1.0'')]) = Finite False 1 0"
  by (simp add: arg_pitch_def demo_platform_def demo_request_def)

lemma format_one: "format_plus_1f (Finite False 1 0) = ''+1.0''"
  by (simp add: run_defs)

lemma format_one_Suc: "format_plus_1f (Finite False (Suc 0) 0) = ''+1.0''"
  using format_one by simp

lemma demo_listing_fox_one:
  "speech_json_listing demo_platform demo_dj (demo_request [(''pitch'', ''1.0'')]) []
     [(''fox'', None)] fox_cache =
   [(''fox'', [demo_sound ''speech_samples/fox.wav'', demo_sound ''speech_samples/fox_p+1.0.wav''])]"
  by (simp add: speech_json_listing_def speech_state_def demo_defs run_defs)

lemma demo_groups_fox_one:
  "speech_json_groups demo_platform demo_dj (demo_request [(''pitch'', ''1.0'')]) []
     [(''fox'', None)] fox_cache =
   [(''fox_p1'', [demo_sound ''speech_samples/fox_p+1.0.wav''])]"
  unfolding speech_json_groups_def demo_listing_fox_one demo_pitch_one
  by (simp add: speech_groups_def speech_key_def pitch_selects_def demo_sound_def str_int_def
        run_defs)

lemma demo_speech_json_fox_one:
  "fst (speech_json demo_platform demo_dj (demo_request [(''pitch'', ''1.0'')]) [] ''fox'' fox_cache)
   = Inr (Json (JList
       [JObj [(''url'', JStr ''speech_samples/fox_p+1.0.wav''), (''type'', JStr ''audio''),
              (''bank'', JStr ''fox_p1''), (''n'', JInt 0)]]))"
proof -
  have st: "\<not> arg_bool (demo_request [(''pitch'', ''1.0'')]) ''strudel''"
    by (simp add: arg_bool_def demo_request_def)
  have f: "float_finite (arg_pitch demo_platform (demo_request [(''pitch'', ''1.0'')]))"
    by (simp add: demo_pitch_one)
  show ?thesis
    unfolding speech_json_flat [OF demo_parse_fox f st] demo_groups_fox_one
    by (simp add: flat_records_def listing_record_def demo_sound_def)
qed

subsection \<open>The flat listing\<close>

text \<open>
  C4. Without the \<^verbatim>\<open>strudel\<close> flag, \<^verbatim>\<open>pack_json\<close> returns the flat listing of the
  samples that \<^verbatim>\<open>dj.list\<close> gives for the words: one record
  \<^verbatim>\<open>{url, type: "audio", bank: word, n}\<close> for each sample, \<open>n\<close> counting from \<open>0\<close>
  within each word, with \<^verbatim>\<open>licensename\<close>, \<^verbatim>\<open>original_url\<close> and \<^verbatim>\<open>author\<close>
  added exactly when the \<^verbatim>\<open>complete\<close> flag is set.
\<close>

theorem flat_listing_records:
  assumes "parse_definition dj defn = Inr ws" and "\<not> arg_bool req ''strudel''"
  shows "fst (pack_json dj req cs defn s) =
           Inr (Json (JList (flat_records (arg_bool req ''complete'')
                               (pack_json_groups dj req cs ws s))))
       \<and> map fst (pack_json_groups dj req cs ws s) = map fst ws"
  by (simp add: pack_json_flat [OF assms] map_fst_pack_json_groups)

theorem flat_listing_records_witness:
  "fst (pack_json demo_dj (demo_request []) [1] ''dog:2,cat'' ([], [])) =
     Inr (Json (JList
       [JObj [(''url'', JStr ''samples/dog/0.wav''), (''type'', JStr ''audio''),
              (''bank'', JStr ''dog''), (''n'', JInt 0)],
        JObj [(''url'', JStr ''samples/dog/1.wav''), (''type'', JStr ''audio''),
              (''bank'', JStr ''dog''), (''n'', JInt 1)],
        JObj [(''url'', JStr ''samples/cat/0.wav''), (''type'', JStr ''audio''),
              (''bank'', JStr ''cat''), (''n'', JInt 0)]]))"
proof -
  have st: "\<not> arg_bool (demo_request []) ''strudel''"
    by (simp add: arg_bool_def demo_request_def)
  have c: "\<not> arg_bool (demo_request []) ''complete''"
    by (simp add: arg_bool_def demo_request_def)
  from flat_listing_records [OF demo_parse_dog_cat st, where cs = "[1]" and s = "([], [])"]
  show ?thesis
    unfolding demo_groups_dog_cat
    by (simp add: c flat_records_def listing_record_def demo_sound_def)
qed

text \<open>The same listing with the \<^verbatim>\<open>complete\<close> flag.\<close>

lemma complete_listing_example:
  "fst (pack_json demo_dj (demo_request [(''complete'', ''1'')]) [1] ''dog:2,cat'' ([], [])) =
     Inr (Json (JList
       [JObj [(''url'', JStr ''samples/dog/0.wav''), (''type'', JStr ''audio''),
              (''bank'', JStr ''dog''), (''n'', JInt 0), (''licensename'', JStr ''cc0''),
              (''original_url'', JStr ''https://freesound.org/s/1''),
              (''author'', JStr ''someone'')],
        JObj [(''url'', JStr ''samples/dog/1.wav''), (''type'', JStr ''audio''),
              (''bank'', JStr ''dog''), (''n'', JInt 1), (''licensename'', JStr ''cc0''),
              (''original_url'', JStr ''https://freesound.org/s/1''),
              (''author'', JStr ''someone'')],
        JObj [(''url'', JStr ''samples/cat/0.wav''), (''type'', JStr ''audio''),
              (''bank'', JStr ''cat''), (''n'', JInt 0), (''licensename'', JStr ''cc0''),
              (''original_url'', JStr ''https://freesound.org/s/1''),
              (''author'', JStr ''someone'')]]))"
proof -
  have st: "\<not> arg_bool (demo_request [(''complete'', ''1'')]) ''strudel''"
    by (simp add: arg_bool_def demo_request_def)
  have c: "arg_bool (demo_request [(''complete'', ''1'')]) ''complete''"
    by (simp add: arg_bool_def demo_request_def)
  show ?thesis
    unfolding pack_json_flat [OF demo_parse_dog_cat st] demo_groups_dog_cat
    by (simp add: c flat_records_def listing_record_def demo_sound_def)
qed

subsection \<open>The order of the listing\<close>

lemma bank_of_jsonify_record:
  "field_text ''bank'' (jsonify (listing_record complete bank n sound)) = [bank]"
  by (simp add: listing_record_def field_text_def json_field_def json_text_def)

lemma banks_jsonify_flat:
  "listing_banks (jsonify (JList (flat_records complete groups))) =
   concat (map (\<lambda>g. replicate (length (snd g)) (fst g)) groups)"
proof -
  have "concat (map (field_text ''bank'')
          (map jsonify (map (\<lambda>ns. listing_record complete k (fst ns) (snd ns)) (enumerate m xs))))
        = replicate (length xs) k" for k m xs
    by (induction xs arbitrary: m) (simp_all add: bank_of_jsonify_record)
  then show ?thesis
    by (induction groups) (simp_all add: listing_banks_def flat_records_def)
qed

lemma banks_jsonify_listing:
  "listing_banks (jsonify (listing_json complete strudel base groups)) =
   (if strudel then sort (''_base'' # map fst (filter (\<lambda>g. snd g \<noteq> []) groups))
    else concat (map (\<lambda>g. replicate (length (snd g)) (fst g)) groups))"
proof (cases strudel)
  case True
  have "map fst (strudel_groups groups) = map fst (filter (\<lambda>g. snd g \<noteq> []) groups)"
    by (simp add: strudel_groups_def comp_def)
  then show ?thesis
    using True by (simp only: listing_json_def if_True keys_jsonify list.map fst_conv)
next
  case False
  then show ?thesis
    using banks_jsonify_flat [of complete groups] by (simp add: listing_json_def)
qed

text \<open>
  C7, as the routes and Flask have it. Whatever the order in which the fetch tasks
  complete, the mapping or list that \<^verbatim>\<open>pack_json\<close> hands to \<^verbatim>\<open>jsonify\<close> follows the
  order of the words in the parsed definition. In flat mode the response does so too:
  the banks of its records are the words in that order, each repeated once for each of
  its samples. In grouped mode the keys of the response are \<^verbatim>\<open>_base\<close> and the words
  that have a sample in sorted order, as \<^verbatim>\<open>jsonify\<close> writes them. The listing is
  returned in flat mode, and in grouped mode when no word is \<^verbatim>\<open>_base\<close>.
\<close>

theorem listing_follows_definition_order:
  assumes "parse_definition dj defn = Inr ws" and "distinct (map fst ws)"
  shows "map fst (pack_json_groups dj req cs ws s) = map fst ws
       \<and> (\<not> arg_bool req ''strudel'' \<or> ''_base'' \<notin> set (map fst ws) \<longrightarrow>
            (\<exists>j. fst (pack_json dj req cs defn s) = Inr (Json j)))
       \<and> (\<forall>j. fst (pack_json dj req cs defn s) = Inr (Json j) \<longrightarrow>
            listing_banks j =
              (if arg_bool req ''strudel''
               then ''_base'' # map fst (filter (\<lambda>g. snd g \<noteq> []) (pack_json_groups dj req cs ws s))
               else concat (map (\<lambda>g. replicate (length (snd g)) (fst g))
                              (pack_json_groups dj req cs ws s)))
            \<and> response_banks (respond (fst (pack_json dj req cs defn s))) =
              (if arg_bool req ''strudel''
               then sort (''_base'' # map fst (filter (\<lambda>g. snd g \<noteq> [])
                                                 (pack_json_groups dj req cs ws s)))
               else concat (map (\<lambda>g. replicate (length (snd g)) (fst g))
                              (pack_json_groups dj req cs ws s))))"
proof -
  have a: "map fst (pack_json_groups dj req cs ws s) = map fst ws"
    by (rule map_fst_pack_json_groups)
  have b: "\<exists>j. fst (pack_json dj req cs defn s) = Inr (Json j)"
    if "\<not> arg_bool req ''strudel'' \<or> ''_base'' \<notin> set (map fst ws)"
    using that by (rule pack_json_returns [OF assms])
  have c: "listing_banks j =
              (if arg_bool req ''strudel''
               then ''_base'' # map fst (filter (\<lambda>g. snd g \<noteq> []) (pack_json_groups dj req cs ws s))
               else concat (map (\<lambda>g. replicate (length (snd g)) (fst g))
                              (pack_json_groups dj req cs ws s)))"
    if "fst (pack_json dj req cs defn s) = Inr (Json j)" for j
    unfolding pack_json_success [OF assms that] by (rule listing_banks_json)
  have d: "response_banks (respond (fst (pack_json dj req cs defn s))) =
              (if arg_bool req ''strudel''
               then sort (''_base'' # map fst (filter (\<lambda>g. snd g \<noteq> [])
                                                 (pack_json_groups dj req cs ws s)))
               else concat (map (\<lambda>g. replicate (length (snd g)) (fst g))
                              (pack_json_groups dj req cs ws s)))"
    if "fst (pack_json dj req cs defn s) = Inr (Json j)" for j
    unfolding that respond_json response_banks_def pack_json_success [OF assms that]
    by (simp add: banks_jsonify_listing)
  from a b c d show ?thesis by blast
qed

theorem listing_follows_definition_order_witness:
  "response_banks (respond (fst (pack_json demo_dj (demo_request []) [1] ''dog:2,cat'' ([], []))))
   = [''dog'', ''dog'', ''cat'']"
proof -
  have st: "\<not> arg_bool (demo_request []) ''strudel''"
    by (simp add: arg_bool_def demo_request_def)
  have c: "\<not> arg_bool (demo_request []) ''complete''"
    by (simp add: arg_bool_def demo_request_def)
  have d: "distinct (map fst [(''dog'', Some (2::int)), (''cat'', None)])" by simp
  have r: "fst (pack_json demo_dj (demo_request []) [1] ''dog:2,cat'' ([], [])) =
     Inr (Json (JList (flat_records False
        [(''dog'', [demo_sound ''samples/dog/0.wav'', demo_sound ''samples/dog/1.wav'']),
         (''cat'', [demo_sound ''samples/cat/0.wav''])])))"
    unfolding pack_json_flat [OF demo_parse_dog_cat st] demo_groups_dog_cat
    by (simp add: c)
  note t = listing_follows_definition_order [OF demo_parse_dog_cat d,
      where req = "demo_request []" and cs = "[1]" and s = "([], [])",
      THEN conjunct2, THEN conjunct2, rule_format, OF r, THEN conjunct2]
  from t show ?thesis
    unfolding demo_groups_dog_cat by (simp add: st)
qed

text \<open>
  C7, as it is stated, has the keys of the grouped listing in the order of the words. The
  definition \<^verbatim>\<open>dog:2,cat\<close> has \<^verbatim>\<open>dog\<close> before \<^verbatim>\<open>cat\<close>; the response has
  \<^verbatim>\<open>cat\<close> before \<^verbatim>\<open>dog\<close>.
\<close>

theorem grouped_keys_sorted_counterexample:
  "parse_definition demo_dj ''dog:2,cat'' = Inr [(''dog'', Some 2), (''cat'', None)]
   \<and> response_banks
       (respond (fst (pack_json demo_dj (demo_request [(''strudel'', ''1'')]) [1] ''dog:2,cat''
                        ([], []))))
     = [''_base'', ''cat'', ''dog'']
   \<and> response_banks
       (respond (fst (pack_json demo_dj (demo_request [(''strudel'', ''1'')]) [1] ''dog:2,cat''
                        ([], []))))
     \<noteq> [''_base'', ''dog'', ''cat'']"
proof -
  have st: "arg_bool (demo_request [(''strudel'', ''1'')]) ''strudel''"
    by (simp add: arg_bool_def demo_request_def)
  have d: "distinct (map fst [(''dog'', Some (2::int)), (''cat'', None)])" by simp
  have n: "''_base'' \<notin> set (map fst [(''dog'', Some (2::int)), (''cat'', None)])" by simp
  have "response_banks
       (respond (fst (pack_json demo_dj (demo_request [(''strudel'', ''1'')]) [1] ''dog:2,cat''
                        ([], []))))
     = [''_base'', ''cat'', ''dog'']"
    unfolding grouped_listing [OF demo_parse_dog_cat st d n] demo_groups_dog_cat
    by (simp add: respond_json response_banks_def listing_banks_def strudel_groups_def)
  with demo_parse_dog_cat show ?thesis by simp
qed

subsection \<open>The samples of a pitch\<close>

text \<open>
  C1. The files of a listing that \<^verbatim>\<open>speech_json\<close> returns are, word after word, the
  files of the samples that \<^verbatim>\<open>dj.list\<close> gives for the word and that pass the test
  of the pitch: for the pitch \<open>0\<close>, neither \<^verbatim>\<open>_p+\<close> nor \<^verbatim>\<open>_p-\<close> occurs in the
  file; for another pitch, \<^verbatim>\<open>_p\<close> followed by the pitch with its sign and one
  decimal occurs in it. The listing is returned when the pitch is finite and, in grouped
  mode with the pitch \<open>0\<close>, no word is \<^verbatim>\<open>_base\<close>.
\<close>

theorem speech_listing_selects_pitch:
  assumes "parse_definition dj (replace_spaces defn) = Inr ws" and "distinct (map fst ws)"
  shows "(float_finite (arg_pitch py req)
          \<and> (\<not> arg_bool req ''strudel'' \<or> float_nonzero (arg_pitch py req)
               \<or> ''_base'' \<notin> set (map fst ws)) \<longrightarrow>
            (\<exists>j. fst (speech_json py dj req cs defn s) = Inr (Json j)))
       \<and> (\<forall>j. fst (speech_json py dj req cs defn s) = Inr (Json j) \<longrightarrow>
            listing_files j =
              concat (map (\<lambda>g. map sound_file
                         (filter (\<lambda>sound.
                            if float_nonzero (arg_pitch py req)
                            then str_in (''_p'' @ format_plus_1f (arg_pitch py req))
                                   (sound_file sound)
                            else \<not> str_in ''_p+'' (sound_file sound)
                                 \<and> \<not> str_in ''_p-'' (sound_file sound))
                          (snd g)))
               (speech_json_listing py dj req cs ws s)))"
proof -
  have a: "\<exists>j. fst (speech_json py dj req cs defn s) = Inr (Json j)"
    if "float_finite (arg_pitch py req)"
      "\<not> arg_bool req ''strudel'' \<or> float_nonzero (arg_pitch py req)
       \<or> ''_base'' \<notin> set (map fst ws)"
    using that by (rule speech_json_returns [OF assms])
  have b: "listing_files j =
              concat (map (\<lambda>g. map sound_file
                         (filter (\<lambda>sound.
                            if float_nonzero (arg_pitch py req)
                            then str_in (''_p'' @ format_plus_1f (arg_pitch py req))
                                   (sound_file sound)
                            else \<not> str_in ''_p+'' (sound_file sound)
                                 \<and> \<not> str_in ''_p-'' (sound_file sound))
                          (snd g)))
               (speech_json_listing py dj req cs ws s))"
    if "fst (speech_json py dj req cs defn s) = Inr (Json j)" for j
    unfolding speech_json_success(1) [OF assms that] listing_files_json
    by (simp add: speech_json_groups_def speech_groups_def comp_def pitch_selects_eq)
  from a b show ?thesis by blast
qed

theorem speech_listing_selects_pitch_witness:
  "fst (speech_json demo_platform demo_dj (demo_request [(''pitch'', ''1.0'')]) [] ''fox'' fox_cache)
   = Inr (Json (JList
       [JObj [(''url'', JStr ''speech_samples/fox_p+1.0.wav''), (''type'', JStr ''audio''),
              (''bank'', JStr ''fox_p1''), (''n'', JInt 0)]]))
   \<and> listing_files (JList
       [JObj [(''url'', JStr ''speech_samples/fox_p+1.0.wav''), (''type'', JStr ''audio''),
              (''bank'', JStr ''fox_p1''), (''n'', JInt 0)]])
     = [''speech_samples/fox_p+1.0.wav'']"
proof -
  have d: "distinct (map fst [(''fox'', None :: int option)])" by simp
  note t = speech_listing_selects_pitch [OF demo_parse_fox d, where py = demo_platform
      and req = "demo_request [(''pitch'', ''1.0'')]" and cs = "[]" and s = fox_cache,
      THEN conjunct2, rule_format, OF demo_speech_json_fox_one]
  from t demo_speech_json_fox_one
  show ?thesis
    unfolding demo_listing_fox_one demo_pitch_one format_one
    by (simp add: demo_sound_def)
qed

text \<open>The cache holds \<^verbatim>\<open>fox\<close> and \<^verbatim>\<open>fox_p+1.0\<close>: the pitch \<open>0\<close> selects the first
  only, the pitch \<open>1.0\<close> the second only, the pitch \<open>-2.0\<close> none.\<close>

lemma select_pitch_examples:
  "select_pitch py (Finite False 0 0) ''fox'' [demo_sound ''fox'', demo_sound ''fox_p+1.0'']
     = Inr ([demo_sound ''fox''], ''fox'')"
  "select_pitch py (Finite False 1 0) ''fox'' [demo_sound ''fox'', demo_sound ''fox_p+1.0'']
     = Inr ([demo_sound ''fox_p+1.0''], ''fox_p1'')"
  "select_pitch py (Finite True 2 0) ''fox'' [demo_sound ''fox'', demo_sound ''fox_p+1.0'']
     = Inr ([], ''fox_p-2'')"
  by (simp_all add: select_pitch_def demo_sound_def run_defs str_int_def)

subsection \<open>The key of a pitch\<close>

text \<open>
  C2. In a listing that \<^verbatim>\<open>speech_json\<close> returns, the bank of every record of a word
  (the key of its group) is the word when the pitch is \<open>0\<close>, and the word followed by
  \<^verbatim>\<open>_p\<close> and the pitch otherwise: the pitch as an integer when it is one, as the
  text of the float when it is not, with no sign or decimal put in. The suffix that the
  files are tested for has the sign and one decimal. The listing is returned when the
  pitch is finite and, in grouped mode with the pitch \<open>0\<close>, no word is \<^verbatim>\<open>_base\<close>.
\<close>

theorem speech_listing_bank_key:
  assumes "parse_definition dj (replace_spaces defn) = Inr ws" and "distinct (map fst ws)"
  shows "(float_finite (arg_pitch py req)
          \<and> (\<not> arg_bool req ''strudel'' \<or> float_nonzero (arg_pitch py req)
               \<or> ''_base'' \<notin> set (map fst ws)) \<longrightarrow>
            (\<exists>j. fst (speech_json py dj req cs defn s) = Inr (Json j)))
       \<and> (\<forall>j. fst (speech_json py dj req cs defn s) = Inr (Json j) \<longrightarrow>
            listing_banks j =
              (if arg_bool req ''strudel''
               then ''_base'' # map fst (filter (\<lambda>g. snd g \<noteq> [])
                                          (speech_json_groups py dj req cs ws s))
               else concat (map (\<lambda>g. replicate (length (snd g)) (fst g))
                              (speech_json_groups py dj req cs ws s)))
            \<and> (float_nonzero (arg_pitch py req) \<and> ws \<noteq> [] \<longrightarrow>
                 (\<exists>sg ds d. ''_p'' @ format_plus_1f (arg_pitch py req)
                               = ''_p'' @ sg # ds @ [CHR ''.'', d]
                    \<and> (sg = CHR ''+'' \<or> sg = CHR ''-'') \<and> ds \<noteq> []
                    \<and> (\<forall>c \<in> set ds. is_digit c) \<and> is_digit d)))
       \<and> map fst (speech_json_groups py dj req cs ws s) =
           map (\<lambda>w. if float_nonzero (arg_pitch py req)
                     then w @ ''_p'' @ pitch_key_text py (arg_pitch py req) else w)
             (map fst ws)"
proof -
  have r: "\<exists>j. fst (speech_json py dj req cs defn s) = Inr (Json j)"
    if "float_finite (arg_pitch py req)"
      "\<not> arg_bool req ''strudel'' \<or> float_nonzero (arg_pitch py req)
       \<or> ''_base'' \<notin> set (map fst ws)"
    using that by (rule speech_json_returns [OF assms])
  have a: "listing_banks j =
           (if arg_bool req ''strudel''
            then ''_base'' # map fst (filter (\<lambda>g. snd g \<noteq> []) (speech_json_groups py dj req cs ws s))
            else concat (map (\<lambda>g. replicate (length (snd g)) (fst g))
                           (speech_json_groups py dj req cs ws s)))"
    if "fst (speech_json py dj req cs defn s) = Inr (Json j)" for j
    unfolding speech_json_success(1) [OF assms that] by (rule listing_banks_json)
  have b: "map fst (speech_json_groups py dj req cs ws s) =
           map (\<lambda>w. if float_nonzero (arg_pitch py req)
                     then w @ ''_p'' @ pitch_key_text py (arg_pitch py req) else w)
             (map fst ws)"
    unfolding map_fst_speech_json_groups
    by (rule map_cong) (simp_all add: speech_key_def)
  have c: "\<exists>sg ds d. ''_p'' @ format_plus_1f (arg_pitch py req) = ''_p'' @ sg # ds @ [CHR ''.'', d]
               \<and> (sg = CHR ''+'' \<or> sg = CHR ''-'') \<and> ds \<noteq> []
               \<and> (\<forall>c \<in> set ds. is_digit c) \<and> is_digit d"
    if "fst (speech_json py dj req cs defn s) = Inr (Json j)" "ws \<noteq> []" for j
  proof -
    from speech_json_success(2) [OF assms that(1)] that(2)
    have "float_finite (arg_pitch py req)" by simp
    from format_plus_1f_shape [OF this] show ?thesis by simp
  qed
  from r a b c show ?thesis by blast
qed

theorem speech_listing_bank_key_witness:
  "listing_banks (JList
       [JObj [(''url'', JStr ''speech_samples/fox_p+1.0.wav''), (''type'', JStr ''audio''),
              (''bank'', JStr ''fox_p1''), (''n'', JInt 0)]])
     = [''fox_p1'']
   \<and> map fst (speech_json_groups demo_platform demo_dj (demo_request [(''pitch'', ''1.0'')]) []
                 [(''fox'', None)] fox_cache) = [''fox_p1'']
   \<and> ''_p'' @ format_plus_1f (Finite False 1 0) = ''_p+1.0''"
proof -
  have d: "distinct (map fst [(''fox'', None :: int option)])" by simp
  have st: "\<not> arg_bool (demo_request [(''pitch'', ''1.0'')]) ''strudel''"
    by (simp add: arg_bool_def demo_request_def)
  note t = speech_listing_bank_key [OF demo_parse_fox d, where py = demo_platform
      and req = "demo_request [(''pitch'', ''1.0'')]" and cs = "[]" and s = fox_cache,
      THEN conjunct2, THEN conjunct1, rule_format, OF demo_speech_json_fox_one,
      THEN conjunct1]
  from t have a: "listing_banks (JList
       [JObj [(''url'', JStr ''speech_samples/fox_p+1.0.wav''), (''type'', JStr ''audio''),
              (''bank'', JStr ''fox_p1''), (''n'', JInt 0)]]) = [''fox_p1'']"
    unfolding demo_groups_fox_one by (simp only: st if_False list.map fst_conv snd_conv
        list.size replicate.simps concat.simps append_Nil2 One_nat_def add_0)
  have b: "map fst (speech_json_groups demo_platform demo_dj (demo_request [(''pitch'', ''1.0'')]) []
                 [(''fox'', None)] fox_cache) = [''fox_p1'']"
    unfolding demo_groups_fox_one by simp
  from a b format_one show ?thesis by simp
qed

text \<open>The pitch \<open>1.5\<close> is not an integer: the key has the text of the float.\<close>

lemma bank_key_examples:
  "speech_key py (Finite False 1 0) ''fox'' = ''fox_p1''"
  "speech_key py (Finite True 1 1) ''fox'' = ''fox_p-2''"
  "speech_key demo_platform (Finite False 3 (- 1)) ''fox'' = ''fox_p1.5''"
  "speech_key py (Finite False 0 0) ''fox'' = ''fox''"
  "format_plus_1f (Finite False 3 (- 1)) = ''+1.5''"
  "format_plus_1f (Finite True 1 1) = ''-2.0''"
  by (simp_all add: speech_key_def str_int_def demo_platform_def run_defs)

subsection \<open>The grouped listing and its reserved key\<close>

text \<open>
  C5. The word \<^verbatim>\<open>_base\<close> is a word like any other for the parser and the engine.
  When it has a sample, the grouped listing is not returned: the loop finds the key
  \<^verbatim>\<open>_base\<close> in the mapping, bound to the text of the base, and appends to it, which
  raises AttributeError.
\<close>

theorem grouped_listing_base_word_fails:
  "fst (pack_json demo_dj (demo_request [(''strudel'', ''1'')]) [] ''_base'' ([], []))
   = Inl AttributeError"
proof -
  have p: "parse_definition demo_dj ''_base'' = Inr [(''_base'', None)]"
    by (simp add: demo_defs)
  have st: "arg_bool (demo_request [(''strudel'', ''1'')]) ''strudel''"
    by (simp add: arg_bool_def demo_request_def)
  have d: "distinct (map fst [(''_base'', None :: int option)])" by simp
  have g: "pack_json_groups demo_dj (demo_request [(''strudel'', ''1'')]) [] [(''_base'', None)] ([], [])
           = [(''_base'', [demo_sound ''samples/_base/0.wav''])]"
    by (simp add: pack_json_groups_def pack_state_def demo_defs run_defs)
  show ?thesis
    unfolding pack_json_strudel [OF p st d] g by simp
qed

lemma grouped_listing_example:
  "fst (pack_json demo_dj (demo_request [(''strudel'', ''1'')]) [1] ''dog:2,cat'' ([], [])) =
     Inr (Json (JObj
       [(''_base'', JStr ''https://shabda.ndre.gr/''),
        (''dog'', JList [JStr ''samples/dog/0.wav'', JStr ''samples/dog/1.wav'']),
        (''cat'', JList [JStr ''samples/cat/0.wav''])]))"
proof -
  have st: "arg_bool (demo_request [(''strudel'', ''1'')]) ''strudel''"
    by (simp add: arg_bool_def demo_request_def)
  have d: "distinct (map fst [(''dog'', Some (2::int)), (''cat'', None)])" by simp
  have n: "''_base'' \<notin> set (map fst [(''dog'', Some (2::int)), (''cat'', None)])" by simp
  show ?thesis
    unfolding grouped_listing [OF demo_parse_dog_cat st d n] demo_groups_dog_cat
    by (simp add: strudel_groups_def demo_sound_def base_url_def demo_request_def)
qed

lemma base_field_of_response:
  assumes "distinct (map fst groups)"
    and "\<not> (\<exists>g \<in> set groups. fst g = ''_base'' \<and> snd g \<noteq> [])"
  shows "response_field ''_base'' (respond (Inr (Json (listing_json complete True base groups))))
         = Some (JStr base)"
proof -
  have k: "map fst (strudel_groups groups) = map fst (filter (\<lambda>g. snd g \<noteq> []) groups)"
    by (simp add: strudel_groups_def comp_def)
  have "''_base'' \<notin> set (map fst (filter (\<lambda>g. snd g \<noteq> []) groups))"
    using assms(2) by auto
  moreover have "distinct (map fst (filter (\<lambda>g. snd g \<noteq> []) groups))"
    using assms(1) by (rule distinct_map_filter)
  ultimately have "distinct (map fst ((''_base'', JStr base) # strudel_groups groups))"
    by (simp add: k)
  from json_field_jsonify [OF this, of "''_base''"] show ?thesis
    by (simp add: respond_json response_field_def listing_json_def)
qed

lemma pack_json_no_base_group:
  assumes "parse_definition dj defn = Inr ws" and "distinct (map fst ws)"
    and "arg_bool req ''strudel''"
    and "fst (pack_json dj req cs defn s) = Inr (Json j)"
  shows "\<not> (\<exists>g \<in> set (pack_json_groups dj req cs ws s). fst g = ''_base'' \<and> snd g \<noteq> [])"
proof
  assume "\<exists>g \<in> set (pack_json_groups dj req cs ws s). fst g = ''_base'' \<and> snd g \<noteq> []"
  then have "fst (pack_json dj req cs defn s) = Inl AttributeError"
    by (simp add: pack_json_strudel [OF assms(1,3,2)])
  with assms(4) show False by simp
qed

lemma speech_json_no_base_group:
  assumes "parse_definition dj (replace_spaces defn) = Inr ws" and "distinct (map fst ws)"
    and "arg_bool req ''strudel''"
    and "fst (speech_json py dj req cs defn s) = Inr (Json j)"
  shows "\<not> (\<exists>g \<in> set (speech_json_groups py dj req cs ws s). fst g = ''_base'' \<and> snd g \<noteq> [])"
proof (cases "ws = []")
  case True
  then show ?thesis
    by (simp add: speech_json_groups_def speech_groups_def speech_json_listing_def)
next
  case False
  with speech_json_success(2) [OF assms(1,2,4)] have fin: "float_finite (arg_pitch py req)"
    by simp
  show ?thesis
  proof
    assume "\<exists>g \<in> set (speech_json_groups py dj req cs ws s). fst g = ''_base'' \<and> snd g \<noteq> []"
    then have "fst (speech_json py dj req cs defn s) = Inl AttributeError"
      by (simp add: speech_json_strudel [OF assms(1) fin assms(3,2)])
    with assms(4) show False by simp
  qed
qed

lemma base_url_hostname:
  assumes "port req \<noteq> Some 0"
  shows "base_url (req\<lparr>hostname := h\<rparr>) =
         ''https://'' @ h
           @ (case port req of None \<Rightarrow> [] | Some p \<Rightarrow> CHR '':'' # str_nat p)
           @ (case script_name req of None \<Rightarrow> [] | Some sn \<Rightarrow> sn)
           @ ''/''"
  using assms by (simp add: base_url_def split: option.splits)

lemma pack_hostname: "pack dj (req\<lparr>hostname := h\<rparr>) cs defn s = pack dj req cs defn s"
  by (simp add: pack_def arg_licenses_def)

lemma pack_json_groups_hostname:
  "pack_json_groups dj (req\<lparr>hostname := h\<rparr>) cs ws s = pack_json_groups dj req cs ws s"
  by (simp add: pack_json_groups_def pack_state_def arg_licenses_def)

lemma arg_bool_hostname: "arg_bool (req\<lparr>hostname := h\<rparr>) key = arg_bool req key"
  by (simp add: arg_bool_def)

lemma pack_json_url_None:
  "fst (pack_json_url dj None req cs defn s) \<noteq> Inr r"
  by (cases "pack dj req cs defn s") (auto simp: pack_json_url_def pack_def Let_def
      split: sum.splits)

lemma speech_json_url_None:
  "fst (speech_json_url py dj None req cs defn s) \<noteq> Inr r"
  by (cases "speech py dj req cs (replace_spaces defn) s")
     (auto simp: speech_json_url_def split: sum.splits)

subsection \<open>The base of the listing\<close>

text \<open>
  C10. Take a request whose port, when its URL has one, is not \<open>0\<close>. In a grouped
  listing that \<^verbatim>\<open>pack_json\<close> or \<^verbatim>\<open>speech_json\<close> returns for such a request, the
  URL has a host and \<^verbatim>\<open>_base\<close> is bound to \<^verbatim>\<open>https://\<close>, the host
  name, a colon and the port when the port is present, the \<^verbatim>\<open>SCRIPT_NAME\<close> and a
  slash, in the mapping of the route and in the response. The scheme of the request
  plays no part. The listing is returned when the URL has a host and no word is
  \<^verbatim>\<open>_base\<close> (for \<^verbatim>\<open>speech_json\<close>: when the pitch is finite and is not \<open>0\<close> or no word is
  \<^verbatim>\<open>_base\<close>).
\<close>

theorem listing_base_is_https:
  assumes "arg_bool req ''strudel''" and "port req \<noteq> Some 0"
    and "parse_definition dj defn = Inr ws" and "distinct (map fst ws)"
    and "parse_definition dj (replace_spaces sdefn) = Inr sws" and "distinct (map fst sws)"
  shows "(''_base'' \<notin> set (map fst ws) \<longrightarrow>
            (\<exists>j. fst (pack_json_url dj (Some h) req cs defn s) = Inr (Json j)))
       \<and> (\<forall>j. fst (pack_json_url dj url_hostname req cs defn s) = Inr (Json j) \<longrightarrow>
            (\<exists>host. url_hostname = Some host
               \<and> json_field ''_base'' j = Some (JStr (base_with_port (req\<lparr>hostname := host\<rparr>)))
               \<and> response_field ''_base''
                    (respond (fst (pack_json_url dj url_hostname req cs defn s)))
                  = Some (JStr (base_with_port (req\<lparr>hostname := host\<rparr>)))))
       \<and> (float_finite (arg_pitch py req)
          \<and> (float_nonzero (arg_pitch py req) \<or> ''_base'' \<notin> set (map fst sws)) \<longrightarrow>
            (\<exists>j. fst (speech_json_url py dj (Some h) req scs sdefn t) = Inr (Json j)))
       \<and> (\<forall>j. fst (speech_json_url py dj url_hostname req scs sdefn t) = Inr (Json j) \<longrightarrow>
            (\<exists>host. url_hostname = Some host
               \<and> json_field ''_base'' j = Some (JStr (base_with_port (req\<lparr>hostname := host\<rparr>)))
               \<and> response_field ''_base''
                    (respond (fst (speech_json_url py dj url_hostname req scs sdefn t)))
                  = Some (JStr (base_with_port (req\<lparr>hostname := host\<rparr>)))))
       \<and> base_with_port (req\<lparr>hostname := h\<rparr>) =
           ''https://'' @ h
             @ (case port req of None \<Rightarrow> [] | Some p \<Rightarrow> CHR '':'' # str_nat p)
             @ (case script_name req of None \<Rightarrow> [] | Some sn \<Rightarrow> sn)
             @ ''/''"
proof -
  have bw: "base_url (req\<lparr>hostname := x\<rparr>) = base_with_port (req\<lparr>hostname := x\<rparr>)" for x
    by (simp add: base_url_hostname [OF assms(2)] base_with_port_def)
  have st: "arg_bool (req\<lparr>hostname := x\<rparr>) ''strudel''" for x
    using assms(1) by (simp add: arg_bool_hostname)
  have a: "\<exists>j. fst (pack_json_url dj (Some h) req cs defn s) = Inr (Json j)"
    if "''_base'' \<notin> set (map fst ws)"
    unfolding pack_json_url_def option.case
    using that by (intro pack_json_returns [OF assms(3,4)]) simp
  have b: "\<exists>host. url_hostname = Some host
               \<and> json_field ''_base'' j = Some (JStr (base_with_port (req\<lparr>hostname := host\<rparr>)))
               \<and> response_field ''_base''
                    (respond (fst (pack_json_url dj url_hostname req cs defn s)))
                  = Some (JStr (base_with_port (req\<lparr>hostname := host\<rparr>)))"
    if r: "fst (pack_json_url dj url_hostname req cs defn s) = Inr (Json j)" for j
  proof (cases url_hostname)
    case None
    with r pack_json_url_None show ?thesis by metis
  next
    case (Some host)
    define rq where "rq = req\<lparr>hostname := host\<rparr>"
    from r Some have r': "fst (pack_json dj rq cs defn s) = Inr (Json j)"
      by (simp add: pack_json_url_def rq_def)
    have j: "j = listing_json (arg_bool rq ''complete'') True (base_with_port rq)
                   (pack_json_groups dj rq cs ws s)"
      using pack_json_success [OF assms(3,4) r'] st [of host] bw [of host]
      by (simp add: rq_def)
    have d: "distinct (map fst (pack_json_groups dj rq cs ws s))"
      using assms(4) by (simp add: map_fst_pack_json_groups)
    have n: "\<not> (\<exists>g \<in> set (pack_json_groups dj rq cs ws s). fst g = ''_base'' \<and> snd g \<noteq> [])"
      using st [of host] by (intro pack_json_no_base_group [OF assms(3,4) _ r']) (simp add: rq_def)
    have "json_field ''_base'' j = Some (JStr (base_with_port rq))"
      unfolding j by (rule json_field_base)
    moreover have "response_field ''_base'' (respond (fst (pack_json_url dj url_hostname req cs defn s)))
                   = Some (JStr (base_with_port rq))"
      unfolding r j by (rule base_field_of_response [OF d n])
    ultimately show ?thesis using Some by (simp add: rq_def)
  qed
  have c: "\<exists>j. fst (speech_json_url py dj (Some h) req scs sdefn t) = Inr (Json j)"
    if "float_finite (arg_pitch py req)"
      "float_nonzero (arg_pitch py req) \<or> ''_base'' \<notin> set (map fst sws)"
    unfolding speech_json_url_def option.case
    using that by (intro speech_json_returns [OF assms(5,6)]) (auto simp: arg_pitch_def)
  have d: "\<exists>host. url_hostname = Some host
               \<and> json_field ''_base'' j = Some (JStr (base_with_port (req\<lparr>hostname := host\<rparr>)))
               \<and> response_field ''_base''
                    (respond (fst (speech_json_url py dj url_hostname req scs sdefn t)))
                  = Some (JStr (base_with_port (req\<lparr>hostname := host\<rparr>)))"
    if r: "fst (speech_json_url py dj url_hostname req scs sdefn t) = Inr (Json j)" for j
  proof (cases url_hostname)
    case None
    with r speech_json_url_None show ?thesis by metis
  next
    case (Some host)
    define rq where "rq = req\<lparr>hostname := host\<rparr>"
    from r Some have r': "fst (speech_json py dj rq scs sdefn t) = Inr (Json j)"
      by (simp add: speech_json_url_def rq_def)
    have j: "j = listing_json False True (base_with_port rq)
                   (speech_json_groups py dj rq scs sws t)"
      using speech_json_success(1) [OF assms(5,6) r'] st [of host] bw [of host]
      by (simp add: rq_def)
    have d: "distinct (map fst (speech_json_groups py dj rq scs sws t))"
      by (rule distinct_speech_json_groups [OF assms(6)])
    have n: "\<not> (\<exists>g \<in> set (speech_json_groups py dj rq scs sws t). fst g = ''_base'' \<and> snd g \<noteq> [])"
      using st [of host]
      by (intro speech_json_no_base_group [OF assms(5,6) _ r']) (simp add: rq_def)
    have "json_field ''_base'' j = Some (JStr (base_with_port rq))"
      unfolding j by (rule json_field_base)
    moreover have "response_field ''_base''
                     (respond (fst (speech_json_url py dj url_hostname req scs sdefn t)))
                   = Some (JStr (base_with_port rq))"
      unfolding r j by (rule base_field_of_response [OF d n])
    ultimately show ?thesis using Some by (simp add: rq_def)
  qed
  have e: "base_with_port (req\<lparr>hostname := h\<rparr>) =
           ''https://'' @ h
             @ (case port req of None \<Rightarrow> [] | Some p \<Rightarrow> CHR '':'' # str_nat p)
             @ (case script_name req of None \<Rightarrow> [] | Some sn \<Rightarrow> sn)
             @ ''/''"
    by (simp add: base_with_port_def)
  from a b c d e show ?thesis by blast
qed

theorem listing_base_is_https_witness:
  "fst (pack_json_url demo_dj (Some ''localhost'')
          \<lparr>args = [(''strudel'', ''1'')], hostname = [], port = Some 5000,
           script_name = Some ''/shabda''\<rparr> [] ''ghostword'' ([], []))
     = Inr (Json (JObj [(''_base'', JStr ''https://localhost:5000/shabda/'')]))
   \<and> response_field ''_base''
       (respond (fst (pack_json_url demo_dj (Some ''localhost'')
          \<lparr>args = [(''strudel'', ''1'')], hostname = [], port = Some 5000,
           script_name = Some ''/shabda''\<rparr> [] ''ghostword'' ([], []))))
     = Some (JStr ''https://localhost:5000/shabda/'')"
proof -
  define req where "req = \<lparr>args = [(''strudel'', ''1'')], hostname = [],
    port = Some 5000, script_name = Some ''/shabda''\<rparr>"
  define rq where "rq = req\<lparr>hostname := ''localhost''\<rparr>"
  have st: "arg_bool req ''strudel''" by (simp add: arg_bool_def req_def)
  have st': "arg_bool rq ''strudel''" by (simp add: arg_bool_def req_def rq_def)
  have po: "port req \<noteq> Some 0" by (simp add: req_def)
  have b: "base_url rq = ''https://localhost:5000/shabda/''"
    by (simp add: base_url_def req_def rq_def str_nat.simps digit_simps)
  have bw: "base_with_port rq = ''https://localhost:5000/shabda/''"
    by (simp add: base_with_port_def req_def rq_def str_nat.simps digit_simps)
  have p: "parse_definition demo_dj ''ghostword'' = Inr [(''ghostword'', None)]"
    by (simp add: demo_defs)
  have d: "distinct (map fst [(''ghostword'', None :: int option)])" by simp
  have n: "''_base'' \<notin> set (map fst [(''ghostword'', None :: int option)])" by simp
  have g: "pack_json_groups demo_dj rq [] [(''ghostword'', None)] ([], []) = [(''ghostword'', [])]"
    by (simp add: pack_json_groups_def pack_state_def demo_defs run_defs req_def rq_def)
  have r1: "fst (pack_json_url demo_dj (Some ''localhost'') req [] ''ghostword'' ([], []))
            = Inr (Json (JObj [(''_base'', JStr ''https://localhost:5000/shabda/'')]))"
    unfolding pack_json_url_def option.case rq_def [symmetric]
      grouped_listing [OF p st' d n] g b by (simp add: strudel_groups_def)
  have sd: "distinct (map fst [(''fox'', None :: int option)])" by simp
  note t = listing_base_is_https [OF st po p d demo_parse_fox sd,
      where url_hostname = "Some ''localhost''" and cs = "[]" and s = "([], [])",
      THEN conjunct2, THEN conjunct1, rule_format, OF r1]
  from t have "response_field ''_base''
       (respond (fst (pack_json_url demo_dj (Some ''localhost'') req [] ''ghostword'' ([], []))))
     = Some (JStr (base_with_port rq))"
    by (auto simp: rq_def)
  with r1 bw show ?thesis unfolding req_def by simp
qed

text \<open>A URL without a host: the route raises TypeError and the response is the internal
  server error. A port \<open>0\<close>, where a URL has one, is left out of the base: the test
  \<^verbatim>\<open>if url.port:\<close> is false of \<open>0\<close>.\<close>

lemma url_without_host_example:
  "fst (pack_json_url demo_dj None (demo_request []) [] ''ghostword'' ([], [])) = Inl TypeError"
  "resp_status (respond (fst (pack_json_url demo_dj None (demo_request []) [] ''ghostword''
     ([], [])))) = 500"
  by (simp_all add: pack_json_url_def pack_def demo_defs run_defs respond_def
        server_error_response_eq)

lemma base_url_port_zero:
  "base_url (req\<lparr>port := Some 0\<rparr>) =
   ''https://'' @ hostname req @ (case script_name req of None \<Rightarrow> [] | Some sn \<Rightarrow> sn) @ ''/''"
  by (simp add: base_url_def)

end
